theory Spec2Isabelle
  imports
    Complex_Main
    "HOL-Library.Char_ord"
    "HOL-Library.List_Lexorder"
    "HOL-Library.Product_Lexorder"
    "HOL-Library.Multiset"
begin

section \<open>Strings\<close>

text \<open>
  A Python \<open>str\<close> is modelled as a \<open>string\<close> in which every \<open>char\<close> is one code point
  below 256, so \<open>length\<close> counts what Python's \<open>len\<close> counts. Lists and pairs are ordered
  lexicographically and characters by code point, as Python orders tuples and strings.
\<close>

definition lower_char :: "char \<Rightarrow> char" where
  \<comment> \<open>\<open>str.lower\<close> on one code point below 256: A-Z and the Latin-1 capitals.\<close>
  "lower_char c =
     (let n = (of_char c :: nat)
      in if (65 \<le> n \<and> n \<le> 90) \<or> (192 \<le> n \<and> n \<le> 222 \<and> n \<noteq> 215)
         then char_of (n + 32) else c)"

definition lower :: "string \<Rightarrow> string" where
  "lower s = map lower_char s"

definition startswith :: "string \<Rightarrow> string \<Rightarrow> bool" where
  \<comment> \<open>\<open>s.startswith(p)\<close>\<close>
  "startswith s p = (take (length p) s = p)"

fun split :: "char \<Rightarrow> string \<Rightarrow> string list" where
  \<comment> \<open>\<open>s.split(sep)\<close> for a one-character separator; the result is never empty.\<close>
  "split sep [] = [[]]"
| "split sep (c # cs) =
     (if c = sep then [] # split sep cs
      else (case split sep cs of [] \<Rightarrow> [[c]] | p # ps \<Rightarrow> (c # p) # ps))"

definition rfind :: "string \<Rightarrow> char \<Rightarrow> int" where
  \<comment> \<open>\<open>s.rfind(c)\<close>: the last position of \<open>c\<close>, or -1\<close>
  "rfind s c = (if c \<in> set s then int (length s) - 1 - int (length (takeWhile (\<lambda>x. x \<noteq> c) (rev s)))
                else - 1)"

definition slice_from :: "string \<Rightarrow> int \<Rightarrow> string" where
  \<comment> \<open>\<open>s[i:]\<close>; a negative \<open>i\<close> counts from the end\<close>
  "slice_from s i = (if i < 0 then drop (nat (int (length s) + i)) s else drop (nat i) s)"

definition slice_to :: "string \<Rightarrow> int \<Rightarrow> string" where
  \<comment> \<open>\<open>s[:i]\<close>; a negative \<open>i\<close> counts from the end\<close>
  "slice_to s i = (if i < 0 then take (nat (int (length s) + i)) s else take (nat i) s)"

section \<open>Dynamic values and exceptions\<close>

text \<open>
  The classes deriving \<open>Strict\<close>, the annotations they declare, and the values a YAML
  document loads to. A float carries its value as a rational; binary and set nodes are
  left out. \<open>V_obj\<close> is an instance of one of the dataclasses with its \<open>__dict__\<close>.
\<close>

datatype dataclass = Teacher_class | Classroom_class | Time_class | Finals_class | Course_class

datatype pytype = T_str | T_int | T_list | T_date | T_Any | T_Union "pytype list"
  | T_class dataclass

datatype pyval = V_None | V_bool bool | V_int int | V_float rat | V_str string
  | V_date int | V_datetime int int | V_list "pyval list" | V_dict "(pyval \<times> pyval) list"
  | V_obj dataclass "(string \<times> pyval) list"

datatype type_error =
    Field_type string dataclass pytype string
      \<comment> \<open>raised by \<open>__post_init__\<close>: key, class, expected type, name of the actual type\<close>
  | Missing_arguments dataclass "string list"
  | Not_iterable string
  | Unhashable string
  | Bad_index string
  | No_item_assignment string

datatype py_error = ValueError | IndexError | AttributeError | KeyError pyval
  | TypeError type_error | YAMLError

text \<open>
  How a run of the loader ends badly: \<open>sys.exit\<close> with a message built from the path of
  the file and the exception caught, or an exception no handler catches.
\<close>

datatype failure = SystemExit string py_error | Uncaught py_error

section \<open>Course model\<close>

text \<open>
  The query engine is modelled on courses as the loader hands them over once the declared
  field types hold: \<open>name\<close>, \<open>type\<close> and \<open>abbreviation\<close> are strings taken from the folder
  names, \<open>time\<close> is absent or a \<open>Time\<close> with a string \<open>day\<close> and integer \<open>start\<close> and
  \<open>end\<close>. The fields \<open>teacher\<close>, \<open>classroom\<close>, \<open>finals\<close> and \<open>other\<close> are read by none of the
  operations below and live in the dynamic model of the loader only.
\<close>

record Time =
  day :: string
  start :: int
  end_time :: int
  weeks :: "string option"

record Course =
  name :: string
  type :: string
  abbreviation_str :: string
  time :: "Time option"
  website :: "string option"

text \<open>\<open>datetime.today()\<close>, read once: weekday (0 = Monday), hour and minute.\<close>

record today =
  today_weekday :: int
  hour :: int
  minute :: int

definition WD_EN :: "string list" where
  "WD_EN = [''monday'', ''tuesday'', ''wednesday'', ''thursday'', ''friday'', ''saturday'',
            ''sundnay'']"

fun index :: "'a list \<Rightarrow> 'a \<Rightarrow> py_error + int" where
  \<comment> \<open>\<open>tuple.index\<close>: position of the first equal element, ValueError when there is none.\<close>
  "index [] x = Inl ValueError"
| "index (y # ys) x =
     (if y = x then Inr 0
      else (case index ys x of Inl e \<Rightarrow> Inl e | Inr i \<Rightarrow> Inr (i + 1)))"

definition weekday_of_day :: "string \<Rightarrow> py_error + int" where
  \<comment> \<open>\<open>WD_EN.index(day.lower())\<close>\<close>
  "weekday_of_day d = index WD_EN (lower d)"

definition weekday :: "Course \<Rightarrow> py_error + int" where
  \<comment> \<open>\<open>Course.weekday\<close>; a course without a time has no \<open>day\<close> attribute to read.\<close>
  "weekday c = (case time c of None \<Rightarrow> Inl AttributeError
                | Some t \<Rightarrow> weekday_of_day (day t))"

definition is_ongoing :: "today \<Rightarrow> Course \<Rightarrow> py_error + bool" where
  "is_ongoing now c =
     (case weekday c of Inl e \<Rightarrow> Inl e
      | Inr w \<Rightarrow> (case time c of None \<Rightarrow> Inl AttributeError
          | Some t \<Rightarrow> Inr (today_weekday now = w
                          \<and> start t \<le> hour now * 60 + minute now
                          \<and> hour now * 60 + minute now \<le> end_time t)))"

section \<open>Schedule query engine\<close>

definition sort_key_of :: "Course \<Rightarrow> py_error + (int \<times> int)" where
  \<comment> \<open>the \<open>key\<close> of \<open>sorted\<close> in \<open>get_sorted_courses\<close>\<close>
  "sort_key_of c =
     (case time c of None \<Rightarrow> Inr (0, 0)
      | Some t \<Rightarrow> (case weekday c of Inl e \<Rightarrow> Inl e | Inr w \<Rightarrow> Inr (w, start t)))"

fun decorate :: "Course list \<Rightarrow> py_error + ((int \<times> int) \<times> Course) list" where
  \<comment> \<open>\<open>sorted\<close> computes every key first, in list order; the first failure propagates.\<close>
  "decorate [] = Inr []"
| "decorate (c # cs) =
     (case sort_key_of c of Inl e \<Rightarrow> Inl e
      | Inr k \<Rightarrow> (case decorate cs of Inl e \<Rightarrow> Inl e | Inr ks \<Rightarrow> Inr ((k, c) # ks)))"

definition get_sorted_courses :: "bool \<Rightarrow> Course list \<Rightarrow> py_error + Course list" where
  \<comment> \<open>The argument list holds the decoded definitions in discovery order. A course is
      appended when it has a time or unscheduled courses are asked for; the list is then
      sorted stably by key.\<close>
  "get_sorted_courses include_unscheduled discovered =
     (let courses = filter (\<lambda>c. time c \<noteq> None \<or> include_unscheduled) discovered
      in case decorate courses of Inl e \<Rightarrow> Inl e
         | Inr ks \<Rightarrow> Inr (map snd (sort_key fst ks)))"

fun first_ongoing :: "today \<Rightarrow> Course list \<Rightarrow> py_error + Course option" where
  \<comment> \<open>the loop of \<open>get_ongoing_course\<close>\<close>
  "first_ongoing now [] = Inr None"
| "first_ongoing now (c # cs) =
     (case is_ongoing now c of Inl e \<Rightarrow> Inl e
      | Inr b \<Rightarrow> if b then Inr (Some c) else first_ongoing now cs)"

definition get_ongoing_course :: "today \<Rightarrow> Course list \<Rightarrow> py_error + Course option" where
  "get_ongoing_course now discovered =
     (case get_sorted_courses False discovered of Inl e \<Rightarrow> Inl e
      | Inr cs \<Rightarrow> first_ongoing now cs)"

definition MID :: int where "MID = 1440"
definition MIW :: int where "MIW = 10080"

definition current_week_time :: "today \<Rightarrow> int" where
  "current_week_time now = today_weekday now * MID + hour now * 60 + minute now"

definition time_to_course :: "today \<Rightarrow> Course \<Rightarrow> py_error + int" where
  "time_to_course now c =
     (case time c of None \<Rightarrow> Inl AttributeError
      | Some t \<Rightarrow> (case weekday c of Inl e \<Rightarrow> Inl e
          | Inr w \<Rightarrow> Inr (((start t + w * MID) - current_week_time now) mod MIW)))"

fun next_loop ::
  "today \<Rightarrow> Course list \<Rightarrow> int option \<times> Course option \<Rightarrow> py_error + Course option" where
  \<comment> \<open>The scan for the nearest course; \<open>min_time = None\<close> stands for \<open>float("+inf")\<close>.\<close>
  "next_loop now [] (min_time, min_course) = Inr min_course"
| "next_loop now (c # cs) (min_time, min_course) =
     (case time_to_course now c of Inl e \<Rightarrow> Inl e
      | Inr d \<Rightarrow>
          if (case min_time of None \<Rightarrow> True | Some m \<Rightarrow> d < m)
          then next_loop now cs (Some d, Some c)
          else next_loop now cs (min_time, min_course))"

fun type_first :: "Course \<Rightarrow> py_error + char" where
  \<comment> \<open>\<open>course.type[0]\<close>\<close>
  "type_first c = (case type c of [] \<Rightarrow> Inl IndexError | x # _ \<Rightarrow> Inr x)"

definition type_matches :: "string option \<Rightarrow> Course \<Rightarrow> py_error + bool" where
  \<comment> \<open>\<open>type in {None, course.type[0]}\<close>: the set is built first, so \<open>type[0]\<close> is read.\<close>
  "type_matches ty c =
     (case type_first c of Inl e \<Rightarrow> Inl e
      | Inr x \<Rightarrow> Inr (ty = None \<or> ty = Some [x]))"

fun abbr_filter :: "string \<Rightarrow> string option \<Rightarrow> Course list \<Rightarrow> py_error + Course list" where
  \<comment> \<open>the comprehension computing \<open>abbr_courses\<close>\<close>
  "abbr_filter abbr ty [] = Inr []"
| "abbr_filter abbr ty (c # cs) =
     (case (if abbr = lower (abbreviation_str c) then type_matches ty c else Inr False) of
        Inl e \<Rightarrow> Inl e
      | Inr b \<Rightarrow> (case abbr_filter abbr ty cs of Inl e \<Rightarrow> Inl e
          | Inr r \<Rightarrow> Inr (if b then c # r else r)))"

fun name_filter ::
  "(string \<Rightarrow> string) \<Rightarrow> string \<Rightarrow> string option \<Rightarrow> Course list \<Rightarrow> py_error + Course list" where
  \<comment> \<open>the comprehension matching the identifier against the course names\<close>
  "name_filter unidecode abbr ty [] = Inr []"
| "name_filter unidecode abbr ty (c # cs) =
     (case (if startswith (unidecode (lower (name c))) (unidecode (lower abbr))
            then type_matches ty c else Inr False) of
        Inl e \<Rightarrow> Inl e
      | Inr b \<Rightarrow> (case name_filter unidecode abbr ty cs of Inl e \<Rightarrow> Inl e
          | Inr r \<Rightarrow> Inr (if b then c # r else r)))"

text \<open>
  \<open>get_course_from_argument\<close>. The transliteration \<open>unidecode\<close> belongs to a third-party
  library and is a parameter. The result is a list of optional courses: the branch for
  \<open>next\<close> returns \<open>[min_course]\<close>, whose element is Python's \<open>None\<close> when the scan saw no
  course.
\<close>

function get_course_from_argument ::
  "(string \<Rightarrow> string) \<Rightarrow> today \<Rightarrow> Course list \<Rightarrow> string option
     \<Rightarrow> py_error + Course option list" where
  "get_course_from_argument unidecode now discovered None =
     (case get_ongoing_course now discovered of Inl e \<Rightarrow> Inl e
      | Inr (Some ongoing) \<Rightarrow> Inr [Some ongoing]
      | Inr None \<Rightarrow> get_course_from_argument unidecode now discovered (Some ''next''))"
| "get_course_from_argument unidecode now discovered (Some argument) =
     (if argument = ''n'' \<or> argument = ''next'' then
        (case get_sorted_courses False discovered of Inl e \<Rightarrow> Inl e
         | Inr cs \<Rightarrow> (case next_loop now cs (None, None) of Inl e \<Rightarrow> Inl e
             | Inr min_course \<Rightarrow> Inr [min_course]))
      else
        (let parts = split CHR ''-'' (lower argument);
             abbr = hd parts;
             ty = (if length parts = 1 then None else Some (parts ! 1))
         in case get_sorted_courses False discovered of Inl e \<Rightarrow> Inl e
            | Inr cs \<Rightarrow> (case abbr_filter abbr ty cs of Inl e \<Rightarrow> Inl e
                | Inr abbr_courses \<Rightarrow>
                    if length abbr_courses \<noteq> 0 then Inr (map Some abbr_courses)
                    else (case get_sorted_courses False discovered of Inl e \<Rightarrow> Inl e
                        | Inr cs' \<Rightarrow> (case name_filter unidecode abbr ty cs' of Inl e \<Rightarrow> Inl e
                            | Inr r \<Rightarrow> Inr (map Some r))))))"
  by pat_completeness auto
termination
  by (relation "measure (\<lambda>(u, now, cs, a). case a of None \<Rightarrow> 1 | Some _ \<Rightarrow> 0)") auto

datatype console = Exit string | Print_course "Course option"
  | Print_attribute "Course option" string

definition list_attribute ::
  "(string \<Rightarrow> string) \<Rightarrow> today \<Rightarrow> Course list \<Rightarrow> string option \<Rightarrow> string
     \<Rightarrow> py_error + console" where
  \<comment> \<open>\<open>Print_attribute\<close> stands for the last branch, which prints the attribute of
      \<open>courses[0]\<close> or that it has none.\<close>
  "list_attribute unidecode now discovered argument attribute =
     (case get_course_from_argument unidecode now discovered argument of Inl e \<Rightarrow> Inl e
      | Inr courses \<Rightarrow>
          if length courses = 0 then Inr (Exit ''No course matching the criteria.'')
          else if length courses \<noteq> 1 then Inr (Exit ''Multiple courses matching the identifier.'')
          else if attribute = [] then Inr (Print_course (courses ! 0))
          else Inr (Print_attribute (courses ! 0) attribute))"

section \<open>Course repository loader\<close>

text \<open>
  The loader is modelled on the definition files that the directory walk yields, in its
  order, each with its path and what \<open>safe_load\<close> makes of it. The keys of a dictionary are
  distinct, as in a loaded document.
\<close>

definition annotations :: "dataclass \<Rightarrow> (string \<times> pytype) list" where
  \<comment> \<open>\<open>__annotations__\<close> of each class, in declaration order\<close>
  "annotations c = (case c of
      Teacher_class \<Rightarrow> [(''name'', T_Union [T_str, T_list]), (''email'', T_Union [T_str, T_list]),
                        (''website'', T_str), (''office'', T_str), (''note'', T_str)]
    | Classroom_class \<Rightarrow> [(''address'', T_str), (''number'', T_str), (''floor'', T_int)]
    | Time_class \<Rightarrow> [(''day'', T_str), (''start'', T_int), (''end'', T_int), (''weeks'', T_str)]
    | Finals_class \<Rightarrow> [(''date'', T_date), (''classroom'', T_class Classroom_class)]
    | Course_class \<Rightarrow> [(''name'', T_str), (''type'', T_str), (''abbreviation'', T_str),
                       (''teacher'', T_class Teacher_class), (''time'', T_class Time_class),
                       (''classroom'', T_class Classroom_class), (''website'', T_str),
                       (''finals'', T_class Finals_class), (''other'', T_Any)])"

definition required :: "dataclass \<Rightarrow> string list" where
  \<comment> \<open>the fields declared without a default; every other field defaults to \<open>None\<close>\<close>
  "required c = (case c of
      Teacher_class \<Rightarrow> [''name'']
    | Classroom_class \<Rightarrow> []
    | Time_class \<Rightarrow> [''day'', ''start'', ''end'']
    | Finals_class \<Rightarrow> [''date'', ''classroom'']
    | Course_class \<Rightarrow> [''name'', ''type'', ''abbreviation''])"

fun type_name :: "pyval \<Rightarrow> string" where
  \<comment> \<open>\<open>type(value).__name__\<close>\<close>
  "type_name V_None = ''NoneType''"
| "type_name (V_bool _) = ''bool''"
| "type_name (V_int _) = ''int''"
| "type_name (V_float _) = ''float''"
| "type_name (V_str _) = ''str''"
| "type_name (V_date _) = ''date''"
| "type_name (V_datetime _ _) = ''datetime''"
| "type_name (V_list _) = ''list''"
| "type_name (V_dict _) = ''dict''"
| "type_name (V_obj c _) = (case c of Teacher_class \<Rightarrow> ''Teacher'' | Classroom_class \<Rightarrow> ''Classroom''
     | Time_class \<Rightarrow> ''Time'' | Finals_class \<Rightarrow> ''Finals'' | Course_class \<Rightarrow> ''Course'')"

fun isinstance :: "pyval \<Rightarrow> pytype \<Rightarrow> bool" where
  \<comment> \<open>\<open>bool\<close> is a subclass of \<open>int\<close> and \<open>datetime\<close> of \<open>date\<close>. The last equation is
      never reached: \<open>Any\<close> is skipped before the test and a union is taken apart.\<close>
  "isinstance (V_str _) T_str = True"
| "isinstance (V_int _) T_int = True"
| "isinstance (V_bool _) T_int = True"
| "isinstance (V_list _) T_list = True"
| "isinstance (V_date _) T_date = True"
| "isinstance (V_datetime _ _) T_date = True"
| "isinstance (V_obj c _) (T_class c') = (c = c')"
| "isinstance _ _ = False"

definition alternatives :: "pytype \<Rightarrow> pytype list" where
  \<comment> \<open>\<open>get_args(field_type) if get_origin(field_type) is Union else [field_type]\<close>\<close>
  "alternatives field_type = (case field_type of T_Union args \<Rightarrow> args | _ \<Rightarrow> [field_type])"

definition lookup_field :: "(string \<times> pyval) list \<Rightarrow> string \<Rightarrow> pyval" where
  \<comment> \<open>\<open>self.__dict__[name]\<close>; the constructor has set every declared field\<close>
  "lookup_field dict n = (case map_of dict n of None \<Rightarrow> V_None | Some v \<Rightarrow> v)"

fun check_fields ::
  "dataclass \<Rightarrow> (string \<times> pyval) list \<Rightarrow> (string \<times> pytype) list \<Rightarrow> py_error option" where
  \<comment> \<open>the loop of \<open>Strict.__post_init__\<close> over the annotations\<close>
  "check_fields c dict [] = None"
| "check_fields c dict ((n, field_type) # rest) =
     (let v = lookup_field dict n
      in if v = V_None \<or> field_type = T_Any then check_fields c dict rest
         else if list_ex (isinstance v) (alternatives field_type) then check_fields c dict rest
         else Some (TypeError (Field_type n c field_type (type_name v))))"

definition post_init :: "dataclass \<Rightarrow> (string \<times> pyval) list \<Rightarrow> py_error option" where
  "post_init c dict = check_fields c dict (annotations c)"

definition construct :: "dataclass \<Rightarrow> (string \<times> pyval) list \<Rightarrow> py_error + pyval" where
  \<comment> \<open>\<open>c(**kwargs)\<close>: the generated \<open>__init__\<close> wants every field without a default, stores
      every field (\<open>None\<close> where the keyword is absent) and calls \<open>__post_init__\<close>.\<close>
  "construct c kwargs =
     (let missing = filter (\<lambda>n. map_of kwargs n = None) (required c)
      in if missing \<noteq> [] then Inl (TypeError (Missing_arguments c missing))
         else (let self = map (\<lambda>(n, _). (n, lookup_field kwargs n)) (annotations c)
               in case post_init c self of Some e \<Rightarrow> Inl e | None \<Rightarrow> Inr (V_obj c self)))"

fun from_dictionary :: "pytype \<Rightarrow> pyval \<Rightarrow> py_error + pyval"
  and from_items :: "dataclass \<Rightarrow> (pyval \<times> pyval) list \<Rightarrow> py_error + (string \<times> pyval) list" where
  \<comment> \<open>\<open>Course.__from_dictionary\<close>. Iterating a string yields its characters and none is a
      field name; iterating a list yields its elements, and \<open>d[f]\<close> on a list needs an
      integer.\<close>
  "from_dictionary (T_class c) (V_dict kvs) =
     (case from_items c kvs of Inl e \<Rightarrow> Inl e | Inr kwargs \<Rightarrow> construct c kwargs)"
| "from_dictionary (T_class c) (V_str s) =
     (case s of [] \<Rightarrow> construct c [] | x # _ \<Rightarrow> Inl (KeyError (V_str [x])))"
| "from_dictionary (T_class c) (V_list xs) =
     (case xs of [] \<Rightarrow> construct c []
      | V_list _ # _ \<Rightarrow> Inl (TypeError (Unhashable ''list''))
      | V_dict _ # _ \<Rightarrow> Inl (TypeError (Unhashable ''dict''))
      | V_str n # _ \<Rightarrow> (if map_of (annotations c) n = None then Inl (KeyError (V_str n))
                        else Inl (TypeError (Bad_index ''str'')))
      | x # _ \<Rightarrow> Inl (KeyError x))"
| "from_dictionary (T_class c) d = Inl (TypeError (Not_iterable (type_name d)))"
| "from_dictionary _ d = Inr d"
| "from_items c [] = Inr []"
| "from_items c ((k, v) # kvs) =
     (case k of
        V_str n \<Rightarrow>
          (case map_of (annotations c) n of None \<Rightarrow> Inl (KeyError k)
           | Some field_type \<Rightarrow>
               (case from_dictionary field_type v of Inl e \<Rightarrow> Inl e
                | Inr v' \<Rightarrow> (case from_items c kvs of Inl e \<Rightarrow> Inl e
                    | Inr kwargs \<Rightarrow> Inr ((n, v') # kwargs))))
      | _ \<Rightarrow> Inl (KeyError k))"

definition courses_folder :: string where
  "courses_folder = ''aktu'' @ [CHR 0xE1] @ ''ln'' @ [CHR 0xED] @ '' semestr/''"

definition sep :: char where
  "sep = CHR ''/''"

definition index_str :: "string \<Rightarrow> char \<Rightarrow> py_error + int" where
  \<comment> \<open>\<open>s.index(c)\<close>\<close>
  "index_str s c = index s c"

definition parse_path :: "string \<Rightarrow> py_error + (string \<times> string \<times> string)" where
  \<comment> \<open>name, abbreviation and type of a course, read off the path of its definition file\<close>
  "parse_path path =
     (let shortened_path = slice_from path (int (length courses_folder))
      in case index_str shortened_path sep of Inl e \<Rightarrow> Inl e
         | Inr i \<Rightarrow>
             (let course_name = slice_to shortened_path i;
                  course_abbreviation =
                    slice_to (slice_from (slice_from course_name (rfind course_name CHR '' '')) 2) (- 1);
                  shortened_path' = slice_from shortened_path (int (length course_name) + 1)
              in case index_str shortened_path' sep of Inl e \<Rightarrow> Inl e
                 | Inr j \<Rightarrow>
                     Inr (slice_to course_name (rfind course_name CHR '' ''),
                          course_abbreviation, slice_to shortened_path' j)))"

text \<open>
  What \<open>safe_load\<close> does with a file: it returns the document, or it raises (YAMLError for
  malformed syntax; a constructor can raise otherwise, as ValueError for a date out of
  range).
\<close>

datatype yaml = Raises py_error | Document pyval

record yaml_file =
  path :: string
  content :: yaml

fun truthy :: "pyval \<Rightarrow> bool" where
  "truthy V_None = False"
| "truthy (V_bool b) = b"
| "truthy (V_int i) = (i \<noteq> 0)"
| "truthy (V_float r) = (r \<noteq> 0)"
| "truthy (V_str s) = (s \<noteq> [])"
| "truthy (V_list xs) = (xs \<noteq> [])"
| "truthy (V_dict kvs) = (kvs \<noteq> [])"
| "truthy _ = True"

fun setitem :: "pyval \<Rightarrow> string \<Rightarrow> pyval \<Rightarrow> py_error + pyval" where
  \<comment> \<open>\<open>course_dict[key] = value\<close>: a dictionary keeps the position of a key it has\<close>
  "setitem (V_dict kvs) k v =
     Inr (V_dict (if V_str k \<in> fst ` set kvs
                  then map (\<lambda>(k', v'). if k' = V_str k then (k', v) else (k', v')) kvs
                  else kvs @ [(V_str k, v)]))"
| "setitem (V_list _) k v = Inl (TypeError (Bad_index ''str''))"
| "setitem d k v = Inl (TypeError (No_item_assignment (type_name d)))"

definition has_key :: "pyval \<Rightarrow> string \<Rightarrow> bool" where
  \<comment> \<open>\<open>key in course_dict\<close>\<close>
  "has_key d k = (case d of V_dict kvs \<Rightarrow> V_str k \<in> fst ` set kvs | _ \<Rightarrow> False)"

definition handle :: "string \<Rightarrow> py_error \<Rightarrow> failure" where
  \<comment> \<open>the two \<open>except\<close> clauses around the body of the loop\<close>
  "handle p e = (case e of YAMLError \<Rightarrow> SystemExit p e | TypeError _ \<Rightarrow> SystemExit p e
                 | KeyError _ \<Rightarrow> SystemExit p e | _ \<Rightarrow> Uncaught e)"

definition make_course_dict :: "pyval \<Rightarrow> string \<Rightarrow> string \<Rightarrow> string \<Rightarrow> py_error + pyval" where
  \<comment> \<open>\<open>course_dict = safe_load(f) or {}\<close> and the three assignments that follow it\<close>
  "make_course_dict doc course_name course_type course_abbreviation =
     (case setitem (if truthy doc then doc else V_dict []) ''name'' (V_str course_name) of
        Inl e \<Rightarrow> Inl e
      | Inr d1 \<Rightarrow> (case setitem d1 ''type'' (V_str course_type) of Inl e \<Rightarrow> Inl e
          | Inr d2 \<Rightarrow> setitem d2 ''abbreviation'' (V_str course_abbreviation)))"

definition load_file :: "bool \<Rightarrow> yaml_file \<Rightarrow> py_error + pyval option" where
  \<comment> \<open>The body of the \<open>try\<close> for one file: the course it appends, if any.\<close>
  "load_file include_unscheduled f =
     (case parse_path (path f) of Inl e \<Rightarrow> Inl e
      | Inr (course_name, course_abbreviation, course_type) \<Rightarrow>
          (case content f of Raises e \<Rightarrow> Inl e
           | Document doc \<Rightarrow>
               (case make_course_dict doc course_name course_type course_abbreviation of
                  Inl e \<Rightarrow> Inl e
                | Inr course_dict \<Rightarrow>
                    if has_key course_dict ''time'' \<or> include_unscheduled
                    then (case from_dictionary (T_class Course_class) course_dict of
                            Inl e \<Rightarrow> Inl e | Inr course \<Rightarrow> Inr (Some course))
                    else Inr None)))"

fun load_courses :: "bool \<Rightarrow> yaml_file list \<Rightarrow> failure + pyval list" where
  \<comment> \<open>The loop of \<open>get_sorted_courses\<close> over the definition files in the order of the
      directory walk; the first failure ends the run.\<close>
  "load_courses include_unscheduled [] = Inr []"
| "load_courses include_unscheduled (f # fs) =
     (case load_file include_unscheduled f of Inl e \<Rightarrow> Inl (handle (path f) e)
      | Inr course \<Rightarrow>
          (case load_courses include_unscheduled fs of Inl e \<Rightarrow> Inl e
           | Inr courses \<Rightarrow> Inr (case course of None \<Rightarrow> courses | Some c \<Rightarrow> c # courses)))"

section \<open>Command dispatcher\<close>

text \<open>
  A node of the decision tree is a dictionary from tuples of aliases to subtrees, kept
  here as an association list in the order of the dictionary; a leaf is a pair of a
  callable, named by its function and the arguments already bound, and a description.
  The dispatcher works on \<open>arguments\<close> as they are once the flags have been taken out; with
  no argument at all the script prints the help and exits before the loop is reached.
\<close>

datatype decision = Function string "string list" string
  | Decisions "(string list \<times> decision) list"

definition decision_tree :: decision where
  "decision_tree = Decisions
    [([''list''], Decisions
        [([''courses''], Function ''list_courses'' [] ''List information about the courses.''),
         ([''attribute''], Function ''list_attribute'' [] ''List the given course attribute.''),
         ([''finals''], Function ''list_finals'' [] ''List dates of all finals.''),
         ([''timeline''], Function ''list_timeline'' [] ''List the courses in a timeline.'')]),
     ([''compile''], Decisions
        [([''cron''], Function ''compile_cron_jobs'' []
            ''Add crontab notifications for all courses.''),
         ([''notes''], Function ''compile_notes'' []
            ''Run md_to_pdf script on all course notes.'')]),
     ([''config''], Function ''open_in_ranger'' [''dirname''] ''Open the course directory in Ranger.''),
     ([''check''], Decisions
        [([''all''], Function ''check_all_websites'' [] ''Update all website caches.''),
         ([''course''], Function ''check_course_website'' []
            ''Check, whether the course website has changed.'')]),
     ([''open''], Decisions
        [([''folder'', ''course''], Function ''open_course'' [''folder'']
            ''Open the course's folder in Ranger.''),
         ([''website''], Function ''open_course'' [''website'']
            ''Open the course's website in FireFox.''),
         ([''notes''], Function ''open_course'' [''notes'']
            ''Open the course's notes in Xournal++.''),
         ([''script''], Function ''open_in_vim'' [''argv0''] ''Open this script in Vim.'')])]"

datatype dispatch_error =
    Raised py_error
  | No_match string "string list list"
      \<comment> \<open>the token matches no decision; the alias groups of the node\<close>
  | Ambiguous string "string list list"
      \<comment> \<open>the token and the alias groups that tie\<close>
  | Decisions_remaining "string list list"

fun py_max :: "nat list \<Rightarrow> py_error + nat" where
  \<comment> \<open>\<open>max\<close> of a list; the empty list has none\<close>
  "py_max [] = Inl ValueError"
| "py_max (x # xs) = Inr (fold max xs x)"

definition score :: "string \<Rightarrow> string list \<Rightarrow> py_error + nat" where
  \<comment> \<open>\<open>max([len(argument) if s.startswith(argument) else 0 for s in d])\<close>\<close>
  "score argument d = py_max (map (\<lambda>s. if startswith s argument then length argument else 0) d)"

fun scored ::
  "string \<Rightarrow> (string list \<times> decision) list \<Rightarrow> py_error + (nat \<times> string list) list" where
  \<comment> \<open>the generator handed to \<open>sorted\<close>, one pair for each key of the node\<close>
  "scored argument [] = Inr []"
| "scored argument ((d, sub) # rest) =
     (case score argument d of Inl e \<Rightarrow> Inl e
      | Inr n \<Rightarrow> (case scored argument rest of Inl e \<Rightarrow> Inl e
          | Inr r \<Rightarrow> Inr ((n, d) # r)))"

definition choose_decision ::
  "(string list \<times> decision) list \<Rightarrow> string \<Rightarrow> dispatch_error + (string list \<times> decision)" where
  \<comment> \<open>one turn of the loop: the key taken for the token and the subtree under it\<close>
  "choose_decision node argument =
     (case scored argument node of Inl e \<Rightarrow> Inl (Raised e)
      | Inr pairs \<Rightarrow>
          (let decisions = sort pairs
           in if decisions = [] then Inl (Raised IndexError)
              else if fst (last decisions) = 0
              then Inl (No_match argument (map fst node))
              else (let decisions' = filter (\<lambda>x. fst x = fst (last decisions)) decisions
                    in if length decisions' > 1
                       then Inl (Ambiguous argument (map snd decisions'))
                       else (case decisions' of [] \<Rightarrow> Inl (Raised IndexError)
                             | x # _ \<Rightarrow> (case map_of node (snd x) of
                                   None \<Rightarrow> Inl (Raised (KeyError (V_list (map V_str (snd x)))))
                                 | Some sub \<Rightarrow> Inr (snd x, sub))))))"

fun go_down ::
  "decision \<Rightarrow> string list \<Rightarrow> string list list
     \<Rightarrow> dispatch_error + (decision \<times> string list \<times> string list list)" where
  \<comment> \<open>the \<open>while\<close> loop: it stops when the arguments run out or a leaf is reached\<close>
  "go_down tree [] parsed_arguments = Inr (tree, [], parsed_arguments)"
| "go_down (Function f bound dsc) arguments parsed_arguments =
     Inr (Function f bound dsc, arguments, parsed_arguments)"
| "go_down (Decisions node) (argument # arguments) parsed_arguments =
     (case choose_decision node argument of Inl e \<Rightarrow> Inl e
      | Inr (d, sub) \<Rightarrow> go_down sub arguments (parsed_arguments @ [d]))"

definition dispatch ::
  "decision \<Rightarrow> string list \<Rightarrow> dispatch_error + (string \<times> string list \<times> string list list)" where
  \<comment> \<open>The function to call, its arguments (those bound in the tree, then the tokens
      left over) and the path of alias groups taken.\<close>
  "dispatch tree arguments =
     (case go_down tree arguments [] of Inl e \<Rightarrow> Inl e
      | Inr (Decisions node, rest, parsed_arguments) \<Rightarrow> Inl (Decisions_remaining (map fst node))
      | Inr (Function f bound dsc, rest, parsed_arguments) \<Rightarrow>
          Inr (f, bound @ rest, parsed_arguments))"

text \<open>
  The scoring as the specification words it, for comparison with \<open>score\<close>: the maximum
  over the aliases of the length of the alias, if the alias starts with the token, else 0.
\<close>

definition spec_score :: "string \<Rightarrow> string list \<Rightarrow> nat" where
  "spec_score argument d = fold max (map (\<lambda>s. if startswith s argument then length s else 0) d) 0"

definition spec_choose ::
  "(string list \<times> decision) list \<Rightarrow> string \<Rightarrow> dispatch_error + (string list \<times> decision)" where
  "spec_choose node argument =
     (let best = fold max (map (\<lambda>(d, sub). spec_score argument d) node) 0;
          winners = filter (\<lambda>(d, sub). spec_score argument d = best) node
      in if best = 0 then Inl (No_match argument (map fst node))
         else (case winners of [(d, sub)] \<Rightarrow> Inr (d, sub)
               | _ \<Rightarrow> Inl (Ambiguous argument (map fst winners))))"

section \<open>Auxiliary notions\<close>

text \<open>
  Notions used to state the properties below; none of them is part of the program.
\<close>

definition key_or :: "Course \<Rightarrow> int \<times> int" where
  \<comment> \<open>the sort key of a course whose key can be computed\<close>
  "key_or c = (case sort_key_of c of Inr k \<Rightarrow> k | Inl _ \<Rightarrow> (0, 0))"

definition day_known :: "Course \<Rightarrow> bool" where
  \<comment> \<open>the day of a scheduled course is one that \<open>weekday\<close> finds\<close>
  "day_known c = (case time c of None \<Rightarrow> True | Some t \<Rightarrow> lower (day t) \<in> set WD_EN)"

definition ascii_unidecode :: "string \<Rightarrow> string" where
  \<comment> \<open>the transliteration restricted to ASCII strings, which it returns unchanged; used
      to evaluate examples\<close>
  "ascii_unidecode s = s"

definition positive_score :: "string \<Rightarrow> string list \<Rightarrow> nat" where
  \<comment> \<open>what \<open>score\<close> computes for a non-empty tuple of aliases\<close>
  "positive_score argument d = (if \<exists>s\<in>set d. startswith s argument then length argument else 0)"

definition root_decisions :: "(string list \<times> decision) list" where
  \<comment> \<open>the node at the root of \<open>decision_tree\<close>\<close>
  "root_decisions = (case decision_tree of Decisions node \<Rightarrow> node | Function _ _ _ \<Rightarrow> [])"

definition dist_or :: "today \<Rightarrow> Course \<Rightarrow> int" where
  \<comment> \<open>the forward distance to a course whose distance can be computed\<close>
  "dist_or now c = (case time_to_course now c of Inr d \<Rightarrow> d | Inl _ \<Rightarrow> 0)"

definition mismatch :: "(string \<times> pyval) list \<Rightarrow> string \<Rightarrow> pytype \<Rightarrow> bool" where
  \<comment> \<open>the field holds a value that \<open>__post_init__\<close> rejects\<close>
  "mismatch dict n t = (lookup_field dict n \<noteq> V_None \<and> t \<noteq> T_Any
      \<and> \<not> list_ex (isinstance (lookup_field dict n)) (alternatives t))"


section \<open>Example data\<close>

definition c_mon :: Course where
  "c_mon = \<lparr>name = ''Linear Algebra'', type = ''lecture'', abbreviation_str = ''LA'',
            time = Some \<lparr>day = ''Monday'', start = 570, end_time = 660, weeks = None\<rparr>,
            website = None\<rparr>"

definition c_early :: Course where
  "c_early = \<lparr>name = ''Discrete Maths'', type = ''practical'', abbreviation_str = ''DM'',
            time = Some \<lparr>day = ''monday'', start = 539, end_time = 600, weeks = None\<rparr>,
            website = None\<rparr>"

definition c_tue :: Course where
  "c_tue = \<lparr>name = ''Programming'', type = ''lecture'', abbreviation_str = ''PRG'',
            time = Some \<lparr>day = ''tuesday'', start = 540, end_time = 630, weeks = None\<rparr>,
            website = None\<rparr>"

definition c_sun :: Course where
  "c_sun = \<lparr>name = ''Algebra'', type = ''lecture'', abbreviation_str = ''ALG'',
            time = Some \<lparr>day = ''sunday'', start = 540, end_time = 630, weeks = None\<rparr>,
            website = None\<rparr>"

definition c_free :: Course where
  "c_free = \<lparr>name = ''Seminar'', type = ''seminar'', abbreviation_str = ''SEM'',
            time = None, website = None\<rparr>"

definition c_hyphen :: Course where
  "c_hyphen = \<lparr>name = ''Operating Systems'', type = ''lecture'', abbreviation_str = ''OS-1'',
            time = Some \<lparr>day = ''friday'', start = 600, end_time = 690, weeks = None\<rparr>,
            website = None\<rparr>"

definition c_wed_late :: Course where
  "c_wed_late = \<lparr>name = ''Analysis'', type = ''lecture'', abbreviation_str = ''AN'',
            time = Some \<lparr>day = ''Wednesday'', start = 750, end_time = 840, weeks = None\<rparr>,
            website = None\<rparr>"

definition c_wed_early :: Course where
  "c_wed_early = \<lparr>name = ''Logic'', type = ''lecture'', abbreviation_str = ''LOG'',
            time = Some \<lparr>day = ''wednesday'', start = 719, end_time = 800, weeks = None\<rparr>,
            website = None\<rparr>"

definition mon_0900 :: today where
  "mon_0900 = \<lparr>today_weekday = 0, hour = 9, minute = 0\<rparr>"

definition wed_1200 :: today where
  "wed_1200 = \<lparr>today_weekday = 2, hour = 12, minute = 0\<rparr>"

definition f_good :: yaml_file where
  "f_good = \<lparr>path = courses_folder @ ''Linear Algebra (LA)/lecture/info.yaml'',
     content = Document (V_dict [(V_str ''time'', V_dict [(V_str ''day'', V_str ''monday''),
        (V_str ''start'', V_int 540), (V_str ''end'', V_int 630)]),
        (V_str ''website'', V_str ''https://example.org'')])\<rparr>"





definition f_bad_date :: yaml_file where
  \<comment> \<open>a document with a date out of range, on which the constructor raises ValueError\<close>
  "f_bad_date = \<lparr>path = courses_folder @ ''Algebra (ALG)/lecture/info.yaml'',
     content = Raises ValueError\<rparr>"

definition f_bad_syntax :: yaml_file where
  "f_bad_syntax = \<lparr>path = courses_folder @ ''Algebra (ALG)/practical/info.yaml'',
     content = Raises YAMLError\<rparr>"

section \<open>Properties of the course model\<close>

lemma weekday_of_day_known:
  "lower d = ''monday'' \<Longrightarrow> weekday_of_day d = Inr 0"
  "lower d = ''tuesday'' \<Longrightarrow> weekday_of_day d = Inr 1"
  "lower d = ''wednesday'' \<Longrightarrow> weekday_of_day d = Inr 2"
  "lower d = ''thursday'' \<Longrightarrow> weekday_of_day d = Inr 3"
  "lower d = ''friday'' \<Longrightarrow> weekday_of_day d = Inr 4"
  "lower d = ''saturday'' \<Longrightarrow> weekday_of_day d = Inr 5"
  by (simp_all add: weekday_of_day_def WD_EN_def)

text \<open>
  C2. \<open>weekday\<close> on a course whose day is \<open>sunday\<close>, in any letter case, raises ValueError
  instead of returning 6: the table of day names holds \<open>sundnay\<close> in the seventh place,
  and that misspelling is what index 6 is returned for.
\<close>

theorem weekday_sunday_rejected:
  "weekday c_sun = Inl ValueError \<and> weekday_of_day ''Sunday'' = Inl ValueError
   \<and> weekday_of_day ''sundnay'' = Inr 6"
  by code_simp


lemma index_mem: "x \<in> set xs \<Longrightarrow> \<exists>i. index xs x = Inr i"
  by (induction xs) auto

lemma decorate_Inr:
  "decorate cs = Inr ks \<Longrightarrow> ks = map (\<lambda>c. (key_or c, c)) cs \<and> (\<forall>c\<in>set cs. sort_key_of c = Inr (key_or c))"
  by (induction cs arbitrary: ks) (auto simp: key_or_def split: sum.splits)

lemma decorate_total:
  "\<forall>c\<in>set cs. \<exists>k. sort_key_of c = Inr k \<Longrightarrow> \<exists>ks. decorate cs = Inr ks"
  by (induction cs) (auto split: sum.splits)

lemma insort_decorated':
  "insort_key fst (f x, x) (map (\<lambda>c. (f c, c)) ys) = map (\<lambda>c. (f c, c)) (insort_key f x ys)"
  by (induction ys) auto

lemma sort_decorated:
  "sort_key fst (map (\<lambda>c. (f c, c)) xs) = map (\<lambda>c. (f c, c)) (sort_key f xs)"
  by (induction xs) (auto simp: insort_decorated')

lemma undecorate_sort:
  "map snd (sort_key fst (map (\<lambda>c. (f c, c)) xs)) = sort_key f xs"
  by (simp add: sort_decorated comp_def)

lemma get_sorted_courses_Inr:
  "get_sorted_courses b ds = Inr out \<Longrightarrow>
     out = sort_key key_or (filter (\<lambda>c. time c \<noteq> None \<or> b) ds)
     \<and> (\<forall>c\<in>set out. sort_key_of c = Inr (key_or c))"
  by (auto simp: get_sorted_courses_def Let_def undecorate_sort split: sum.splits dest!: decorate_Inr)

lemma day_known_key: "day_known c \<Longrightarrow> \<exists>k. sort_key_of c = Inr k"
  by (auto simp: day_known_def sort_key_of_def weekday_def weekday_of_day_def
           split: option.splits sum.splits dest: index_mem)

lemma get_sorted_courses_total:
  "\<forall>c\<in>set ds. day_known c \<Longrightarrow> \<exists>out. get_sorted_courses b ds = Inr out"
proof -
  assume a: "\<forall>c\<in>set ds. day_known c"
  have "\<forall>c\<in>set (filter (\<lambda>c. time c \<noteq> None \<or> b) ds). \<exists>k. sort_key_of c = Inr k"
    using a day_known_key by force
  from decorate_total[OF this] show ?thesis
    by (auto simp: get_sorted_courses_def Let_def)
qed

lemma sorted_schedule_props:
  assumes "get_sorted_courses b ds = Inr out"
  shows "(\<exists>ks. map sort_key_of (filter (\<lambda>c. time c \<noteq> None) out) = map Inr ks \<and> sorted ks)
       \<and> mset (filter (\<lambda>c. time c \<noteq> None) out) = mset (filter (\<lambda>c. time c \<noteq> None) ds)
       \<and> (\<forall>k. filter (\<lambda>c. sort_key_of c = Inr k) (filter (\<lambda>c. time c \<noteq> None) out)
              = filter (\<lambda>c. sort_key_of c = Inr k) (filter (\<lambda>c. time c \<noteq> None) ds))"
proof -
  let ?S = "\<lambda>c. time c \<noteq> None"
  let ?G = "\<lambda>c. time c \<noteq> None \<or> b"
  from get_sorted_courses_Inr[OF assms]
  have out: "out = sort_key key_or (filter ?G ds)"
    and keys: "\<forall>c\<in>set out. sort_key_of c = Inr (key_or c)" by auto
  have "sorted (map key_or out)" unfolding out by simp
  then have s: "sorted (map key_or (filter ?S out))"
    by (simp add: sorted_filter)
  have "map sort_key_of (filter ?S out) = map Inr (map key_or (filter ?S out))"
    using keys by (auto)
  with s have 1: "\<exists>ks. map sort_key_of (filter ?S out) = map Inr ks \<and> sorted ks" by blast
  have fo: "filter ?S out = sort_key key_or (filter ?S ds)"
    unfolding out by (simp add: filter_sort) (metis (mono_tags, lifting) filter_cong)
  have 2: "mset (filter ?S out) = mset (filter ?S ds)"
    unfolding fo by simp
  have 3: "filter (\<lambda>c. sort_key_of c = Inr k) (filter ?S out)
              = filter (\<lambda>c. sort_key_of c = Inr k) (filter ?S ds)" for k
  proof -
    have set_eq: "set (filter ?S out) = set (filter ?S ds)"
      using 2 by (metis set_mset_mset)
    have kk: "\<forall>c\<in>set (filter ?S ds). sort_key_of c = Inr (key_or c)"
      using keys set_eq by auto
    have "filter (\<lambda>c. sort_key_of c = Inr k) (filter ?S out)
          = filter (\<lambda>c. key_or c = k) (filter ?S out)"
      using keys by (intro filter_cong) auto
    also have "\<dots> = filter (\<lambda>c. key_or c = k) (filter ?S ds)"
      unfolding fo by (rule sort_key_stable)
    also have "\<dots> = filter (\<lambda>c. sort_key_of c = Inr k) (filter ?S ds)"
      using kk by (intro filter_cong) auto
    finally show ?thesis .
  qed
  from 1 2 3 show ?thesis by blast
qed


lemma sorted_output_whole:
  assumes "get_sorted_courses b ds = Inr out"
  shows "(\<exists>ks. map sort_key_of out = map Inr ks \<and> sorted ks)
       \<and> mset out = mset (filter (\<lambda>c. time c \<noteq> None \<or> b) ds)
       \<and> (\<forall>k. filter (\<lambda>c. sort_key_of c = Inr k) out
              = filter (\<lambda>c. sort_key_of c = Inr k) (filter (\<lambda>c. time c \<noteq> None \<or> b) ds))"
proof -
  let ?G = "\<lambda>c. time c \<noteq> None \<or> b"
  from get_sorted_courses_Inr[OF assms]
  have out: "out = sort_key key_or (filter ?G ds)"
    and keys: "\<forall>c\<in>set out. sort_key_of c = Inr (key_or c)" by auto
  have s: "sorted (map key_or out)" unfolding out by simp
  have "map sort_key_of out = map Inr (map key_or out)" using keys by auto
  with s have 1: "\<exists>ks. map sort_key_of out = map Inr ks \<and> sorted ks" by blast
  have 2: "mset out = mset (filter ?G ds)" unfolding out by simp
  have 3: "filter (\<lambda>c. sort_key_of c = Inr k) out
           = filter (\<lambda>c. sort_key_of c = Inr k) (filter ?G ds)" for k
  proof -
    have set_eq: "set out = set (filter ?G ds)" using 2 by (metis set_mset_mset)
    have kk: "\<forall>c\<in>set (filter ?G ds). sort_key_of c = Inr (key_or c)"
      using keys set_eq by auto
    have "filter (\<lambda>c. sort_key_of c = Inr k) out = filter (\<lambda>c. key_or c = k) out"
      using keys by (intro filter_cong) auto
    also have "\<dots> = filter (\<lambda>c. key_or c = k) (filter ?G ds)"
      unfolding out by (rule sort_key_stable)
    also have "\<dots> = filter (\<lambda>c. sort_key_of c = Inr k) (filter ?G ds)"
      using kk by (intro filter_cong) auto
    finally show ?thesis .
  qed
  from 1 2 3 show ?thesis by blast
qed

text \<open>
  What holds of every output of the sorted-courses query. The whole output is in
  non-decreasing order of the key, it is a permutation of the courses that pass the mode
  (in the default mode, of the scheduled courses discovered), and courses with equal keys
  keep their discovery order (\<open>sorted_output_whole\<close>); the same holds of the scheduled
  courses in it, in either mode. The query has an output whenever every scheduled course
  has a day that \<open>weekday\<close> finds.
\<close>

lemma sorted_schedule:
  "(get_sorted_courses b ds = Inr out
      \<longrightarrow> (\<exists>ks. map sort_key_of (filter (\<lambda>c. time c \<noteq> None) out) = map Inr ks \<and> sorted ks)
        \<and> mset (filter (\<lambda>c. time c \<noteq> None) out) = mset (filter (\<lambda>c. time c \<noteq> None) ds)
        \<and> (\<forall>k. filter (\<lambda>c. sort_key_of c = Inr k) (filter (\<lambda>c. time c \<noteq> None) out)
               = filter (\<lambda>c. sort_key_of c = Inr k) (filter (\<lambda>c. time c \<noteq> None) ds)))
   \<and> ((\<forall>c\<in>set ds. day_known c) \<longrightarrow> (\<exists>out'. get_sorted_courses b ds = Inr out'))"
proof (rule conjI)
  show "get_sorted_courses b ds = Inr out
      \<longrightarrow> (\<exists>ks. map sort_key_of (filter (\<lambda>c. time c \<noteq> None) out) = map Inr ks \<and> sorted ks)
        \<and> mset (filter (\<lambda>c. time c \<noteq> None) out) = mset (filter (\<lambda>c. time c \<noteq> None) ds)
        \<and> (\<forall>k. filter (\<lambda>c. sort_key_of c = Inr k) (filter (\<lambda>c. time c \<noteq> None) out)
               = filter (\<lambda>c. sort_key_of c = Inr k) (filter (\<lambda>c. time c \<noteq> None) ds))"
    by (rule impI) (rule sorted_schedule_props)
next
  show "(\<forall>c\<in>set ds. day_known c) \<longrightarrow> (\<exists>out'. get_sorted_courses b ds = Inr out')"
    by (rule impI) (rule get_sorted_courses_total)
qed

lemma sorted_schedule_example:
  "day_known c_tue \<and> day_known c_free \<and> day_known c_mon
   \<and> get_sorted_courses True [c_tue, c_free, c_mon] = Inr [c_free, c_mon, c_tue]
   \<and> map sort_key_of (filter (\<lambda>c. time c \<noteq> None) [c_free, c_mon, c_tue]) = map Inr [(0, 570), (1, 540)]
   \<and> mset (filter (\<lambda>c. time c \<noteq> None) [c_free, c_mon, c_tue])
       = mset (filter (\<lambda>c. time c \<noteq> None) [c_tue, c_free, c_mon])"
proof -
  have d: "\<forall>c\<in>set [c_tue, c_free, c_mon]. day_known c" by code_simp
  have s: "get_sorted_courses True [c_tue, c_free, c_mon] = Inr [c_free, c_mon, c_tue]"
    by code_simp
  have k: "map sort_key_of (filter (\<lambda>c. time c \<noteq> None) [c_free, c_mon, c_tue])
           = map Inr [(0, 570), (1, 540)]" by code_simp
  note t = sorted_schedule[of True "[c_tue, c_free, c_mon]" "[c_free, c_mon, c_tue]"]
  from t[THEN conjunct2, THEN mp, OF d]
  have "\<exists>out'. get_sorted_courses True [c_tue, c_free, c_mon] = Inr out'" .
  from t[THEN conjunct1, THEN mp, OF s] have
    "mset (filter (\<lambda>c. time c \<noteq> None) [c_free, c_mon, c_tue])
       = mset (filter (\<lambda>c. time c \<noteq> None) [c_tue, c_free, c_mon])" by blast
  moreover have "day_known c_tue \<and> day_known c_free \<and> day_known c_mon" using d by simp
  ultimately show ?thesis using s k by blast
qed

lemma next_loop_acc:
  assumes "\<forall>c\<in>set cs. time_to_course now c = Inr (f c)"
  shows "(next_loop now cs (Some m, Some c0) = Inr (Some c0) \<and> (\<forall>x\<in>set cs. m \<le> f x))
       \<or> (\<exists>pre c post. cs = pre @ c # post \<and> next_loop now cs (Some m, Some c0) = Inr (Some c)
             \<and> f c < m \<and> (\<forall>x\<in>set pre. f c < f x) \<and> (\<forall>x\<in>set post. f c \<le> f x))"
  using assms
proof (induction cs arbitrary: m c0)
  case Nil
  then show ?case by simp
next
  case (Cons a cs)
  have fa: "time_to_course now a = Inr (f a)" using Cons.prems by simp
  have rest: "\<forall>c\<in>set cs. time_to_course now c = Inr (f c)" using Cons.prems by simp
  show ?case
  proof (cases "f a < m")
    case True
    then have step: "next_loop now (a # cs) (Some m, Some c0) = next_loop now cs (Some (f a), Some a)"
      using fa by simp
    from Cons.IH[OF rest, of "f a" a] show ?thesis
    proof
      assume h: "next_loop now cs (Some (f a), Some a) = Inr (Some a) \<and> (\<forall>x\<in>set cs. f a \<le> f x)"
      have "a # cs = [] @ a # cs \<and> next_loop now (a # cs) (Some m, Some c0) = Inr (Some a)
            \<and> f a < m \<and> (\<forall>x\<in>set []. f a < f x) \<and> (\<forall>x\<in>set cs. f a \<le> f x)"
        using h step True by simp
      then show ?thesis by blast
    next
      assume "\<exists>pre c post. cs = pre @ c # post \<and> next_loop now cs (Some (f a), Some a) = Inr (Some c)
             \<and> f c < f a \<and> (\<forall>x\<in>set pre. f c < f x) \<and> (\<forall>x\<in>set post. f c \<le> f x)"
      then obtain pre c post where h: "cs = pre @ c # post"
        "next_loop now cs (Some (f a), Some a) = Inr (Some c)" "f c < f a"
        "\<forall>x\<in>set pre. f c < f x" "\<forall>x\<in>set post. f c \<le> f x" by blast
      have "a # cs = (a # pre) @ c # post \<and> next_loop now (a # cs) (Some m, Some c0) = Inr (Some c)
            \<and> f c < m \<and> (\<forall>x\<in>set (a # pre). f c < f x) \<and> (\<forall>x\<in>set post. f c \<le> f x)"
        using h step True by simp
      then show ?thesis by blast
    qed
  next
    case False
    then have step: "next_loop now (a # cs) (Some m, Some c0) = next_loop now cs (Some m, Some c0)"
      using fa by simp
    from Cons.IH[OF rest, of m c0] show ?thesis
    proof
      assume "next_loop now cs (Some m, Some c0) = Inr (Some c0) \<and> (\<forall>x\<in>set cs. m \<le> f x)"
      then show ?thesis using step False by simp
    next
      assume "\<exists>pre c post. cs = pre @ c # post \<and> next_loop now cs (Some m, Some c0) = Inr (Some c)
             \<and> f c < m \<and> (\<forall>x\<in>set pre. f c < f x) \<and> (\<forall>x\<in>set post. f c \<le> f x)"
      then obtain pre c post where h: "cs = pre @ c # post"
        "next_loop now cs (Some m, Some c0) = Inr (Some c)" "f c < m"
        "\<forall>x\<in>set pre. f c < f x" "\<forall>x\<in>set post. f c \<le> f x" by blast
      have "a # cs = (a # pre) @ c # post \<and> next_loop now (a # cs) (Some m, Some c0) = Inr (Some c)
            \<and> f c < m \<and> (\<forall>x\<in>set (a # pre). f c < f x) \<and> (\<forall>x\<in>set post. f c \<le> f x)"
        using h step False by simp
      then show ?thesis by blast
    qed
  qed
qed

lemma next_loop_first_min:
  assumes "\<forall>c\<in>set cs. time_to_course now c = Inr (f c)" and "cs \<noteq> []"
  shows "\<exists>pre c post. cs = pre @ c # post \<and> next_loop now cs (None, None) = Inr (Some c)
           \<and> (\<forall>x\<in>set pre. f c < f x) \<and> (\<forall>x\<in>set post. f c \<le> f x)"
proof -
  obtain a as where cs: "cs = a # as" using assms(2) by (cases cs) auto
  have fa: "time_to_course now a = Inr (f a)" and rest: "\<forall>c\<in>set as. time_to_course now c = Inr (f c)"
    using assms(1) cs by auto
  have step: "next_loop now cs (None, None) = next_loop now as (Some (f a), Some a)"
    using fa cs by simp
  from next_loop_acc[OF rest, of "f a" a] show ?thesis
  proof
    assume h: "next_loop now as (Some (f a), Some a) = Inr (Some a) \<and> (\<forall>x\<in>set as. f a \<le> f x)"
    have "cs = [] @ a # as \<and> next_loop now cs (None, None) = Inr (Some a)
          \<and> (\<forall>x\<in>set []. f a < f x) \<and> (\<forall>x\<in>set as. f a \<le> f x)"
      using h step cs by simp
    then show ?thesis by blast
  next
    assume "\<exists>pre c post. as = pre @ c # post \<and> next_loop now as (Some (f a), Some a) = Inr (Some c)
             \<and> f c < f a \<and> (\<forall>x\<in>set pre. f c < f x) \<and> (\<forall>x\<in>set post. f c \<le> f x)"
    then obtain pre c post where h: "as = pre @ c # post"
      "next_loop now as (Some (f a), Some a) = Inr (Some c)" "f c < f a"
      "\<forall>x\<in>set pre. f c < f x" "\<forall>x\<in>set post. f c \<le> f x" by blast
    have "cs = (a # pre) @ c # post \<and> next_loop now cs (None, None) = Inr (Some c)
          \<and> (\<forall>x\<in>set (a # pre). f c < f x) \<and> (\<forall>x\<in>set post. f c \<le> f x)"
      using h step cs by simp
    then show ?thesis by blast
  qed
qed

lemma sorted_courses_distance:
  assumes "get_sorted_courses False ds = Inr cs" and "c \<in> set cs"
  shows "time_to_course now c = Inr (dist_or now c) \<and> 0 \<le> dist_or now c \<and> dist_or now c < 10080"
proof -
  from get_sorted_courses_Inr[OF assms(1)] assms(2)
  have k: "sort_key_of c = Inr (key_or c)" and t: "time c \<noteq> None" by auto
  then obtain t' w where "time c = Some t'" "weekday c = Inr w"
    by (auto simp: sort_key_of_def split: option.splits sum.splits)
  then show ?thesis
    by (simp add: dist_or_def time_to_course_def MIW_def)
qed

lemma time_to_course_formula:
  assumes "time_to_course now c = Inr d"
  shows "\<exists>t w. time c = Some t \<and> index WD_EN (lower (day t)) = Inr w
           \<and> d = (start t + w * 1440
                  - (today_weekday now * 1440 + hour now * 60 + minute now)) mod 10080"
  using assms
  by (auto simp: time_to_course_def weekday_def weekday_of_day_def current_week_time_def
        MID_def MIW_def split: option.splits sum.splits)

text \<open>
  What holds of the next-course query on every non-empty schedule: it returns one course
  of the schedule whose forward distance from the current position in the week, the
  start plus 1440 times the weekday index less the position of now, modulo 10080
  (\<open>time_to_course_formula\<close>), is strictly smaller than that of every course before it in
  schedule order and at most that of every course after it. The schedule exists and is
  non-empty when some course is scheduled and every scheduled day is one that \<open>weekday\<close>
  finds.
\<close>

lemma next_course_nearest:
  assumes arg: "argument = ''n'' \<or> argument = ''next''"
  shows "(get_sorted_courses False ds = Inr cs \<and> cs \<noteq> []
          \<longrightarrow> (\<exists>pre c post d. cs = pre @ c # post
                \<and> get_course_from_argument unidecode now ds (Some argument) = Inr [Some c]
                \<and> time_to_course now c = Inr d \<and> 0 \<le> d \<and> d < 10080
                \<and> (\<forall>x\<in>set pre. \<exists>d'. time_to_course now x = Inr d' \<and> d < d')
                \<and> (\<forall>x\<in>set post. \<exists>d'. time_to_course now x = Inr d' \<and> d \<le> d')))
       \<and> ((\<forall>c\<in>set ds. day_known c) \<and> (\<exists>c\<in>set ds. time c \<noteq> None)
          \<longrightarrow> (\<exists>cs'. get_sorted_courses False ds = Inr cs' \<and> cs' \<noteq> []))"
proof (intro conjI impI)
  assume h0: "get_sorted_courses False ds = Inr cs \<and> cs \<noteq> []"
  then have cs: "get_sorted_courses False ds = Inr cs" and ne: "cs \<noteq> []" by blast+
  have all: "\<forall>c\<in>set cs. time_to_course now c = Inr (dist_or now c)"
    using sorted_courses_distance[OF cs] by blast
  from next_loop_first_min[OF all ne] obtain pre c post where h: "cs = pre @ c # post"
    "next_loop now cs (None, None) = Inr (Some c)"
    "\<forall>x\<in>set pre. dist_or now c < dist_or now x" "\<forall>x\<in>set post. dist_or now c \<le> dist_or now x"
    by blast
  have c_in: "c \<in> set cs" using h(1) by simp
  have res: "get_course_from_argument unidecode now ds (Some argument) = Inr [Some c]"
    using arg cs h(2) by auto
  have pre: "\<forall>x\<in>set pre. \<exists>d'. time_to_course now x = Inr d' \<and> dist_or now c < d'"
    using h(1) h(3) all by auto
  have post: "\<forall>x\<in>set post. \<exists>d'. time_to_course now x = Inr d' \<and> dist_or now c \<le> d'"
    using h(1) h(4) all by auto
  from sorted_courses_distance[OF cs c_in, of now] res pre post h(1)
  show "\<exists>pre c post d. cs = pre @ c # post
                \<and> get_course_from_argument unidecode now ds (Some argument) = Inr [Some c]
                \<and> time_to_course now c = Inr d \<and> 0 \<le> d \<and> d < 10080
                \<and> (\<forall>x\<in>set pre. \<exists>d'. time_to_course now x = Inr d' \<and> d < d')
                \<and> (\<forall>x\<in>set post. \<exists>d'. time_to_course now x = Inr d' \<and> d \<le> d')"
    by blast
next
  assume h0: "(\<forall>c\<in>set ds. day_known c) \<and> (\<exists>c\<in>set ds. time c \<noteq> None)"
  then have known: "\<forall>c\<in>set ds. day_known c" and nonempty: "\<exists>c\<in>set ds. time c \<noteq> None"
    by blast+
  from get_sorted_courses_total[OF known] obtain cs' where
    cs: "get_sorted_courses False ds = Inr cs'" by blast
  from get_sorted_courses_Inr[OF cs] have "set cs' = set (filter (\<lambda>c. time c \<noteq> None) ds)"
    by simp
  with nonempty have "cs' \<noteq> []" by auto
  with cs show "\<exists>cs'. get_sorted_courses False ds = Inr cs' \<and> cs' \<noteq> []" by blast
qed

lemma next_course_nearest_example:
  "day_known c_mon \<and> day_known c_early \<and> time c_mon \<noteq> None
   \<and> time_to_course mon_0900 c_mon = Inr 30 \<and> time_to_course mon_0900 c_early = Inr 10079
   \<and> get_sorted_courses False [c_mon, c_early] = Inr [c_early, c_mon]
   \<and> get_course_from_argument ascii_unidecode mon_0900 [c_mon, c_early] (Some ''next'')
       = Inr [Some c_mon]"
proof -
  have k: "\<forall>c\<in>set [c_mon, c_early]. day_known c" by code_simp
  have n: "\<exists>c\<in>set [c_mon, c_early]. time c \<noteq> None" by code_simp
  have d1: "time_to_course mon_0900 c_mon = Inr 30" by code_simp
  have d2: "time_to_course mon_0900 c_early = Inr 10079" by code_simp
  have s: "get_sorted_courses False [c_mon, c_early] = Inr [c_early, c_mon]" by code_simp
  have r: "get_course_from_argument ascii_unidecode mon_0900 [c_mon, c_early] (Some ''next'')
             = Inr [Some c_mon]" by code_simp
  have k': "day_known c_mon \<and> day_known c_early" using k by simp
  have n': "time c_mon \<noteq> None" by code_simp
  note t = next_course_nearest[of "''next''" "[c_mon, c_early]" "[c_early, c_mon]"
              ascii_unidecode mon_0900, OF disjI2, OF refl]
  from k n have "(\<forall>c\<in>set [c_mon, c_early]. day_known c)
                 \<and> (\<exists>c\<in>set [c_mon, c_early]. time c \<noteq> None)" by (rule conjI)
  from t[THEN conjunct2, THEN mp, OF this]
  have "\<exists>cs'. get_sorted_courses False [c_mon, c_early] = Inr cs' \<and> cs' \<noteq> []" .
  have "get_sorted_courses False [c_mon, c_early] = Inr [c_early, c_mon] \<and> [c_early, c_mon] \<noteq> []"
    using s by simp
  from t[THEN conjunct1, THEN mp, OF this]
  have "\<exists>pre c post d. [c_early, c_mon] = pre @ c # post
          \<and> get_course_from_argument ascii_unidecode mon_0900 [c_mon, c_early] (Some ''next'')
              = Inr [Some c]
          \<and> time_to_course mon_0900 c = Inr d \<and> 0 \<le> d \<and> d < 10080
          \<and> (\<forall>x\<in>set pre. \<exists>d'. time_to_course mon_0900 x = Inr d' \<and> d < d')
          \<and> (\<forall>x\<in>set post. \<exists>d'. time_to_course mon_0900 x = Inr d' \<and> d \<le> d')" .
  with k' n' d1 d2 s r show ?thesis by blast
qed


lemma next_course_across_days:
  "time_to_course wed_1200 c_wed_late = Inr 30 \<and> time_to_course wed_1200 c_wed_early = Inr 10079
   \<and> time_to_course wed_1200 c_tue = Inr 8460
   \<and> get_course_from_argument ascii_unidecode wed_1200 [c_wed_late, c_tue, c_wed_early]
         (Some ''next'') = Inr [Some c_wed_late]"
  by code_simp

text \<open>
  C3. On a set of scheduled courses one of which is on \<open>sunday\<close>, the next-course query
  raises ValueError for both its tokens instead of returning the course at the least
  forward distance: the schedule is sorted first, the key of a course reads its weekday,
  and the table of day names holds the misspelling \<open>sundnay\<close>.
\<close>

theorem next_course_sunday_raises:
  "get_course_from_argument ascii_unidecode mon_0900 [c_mon, c_sun] (Some ''next'') = Inl ValueError
   \<and> get_course_from_argument ascii_unidecode mon_0900 [c_mon, c_sun] (Some ''n'') = Inl ValueError"
  by code_simp

text \<open>
  C5. On a set of definitions one of which is on \<open>sunday\<close>, the sorted-courses query has
  no output in either mode: computing the sort key of that course raises ValueError, the
  table of day names holding the misspelling \<open>sundnay\<close>.
\<close>

theorem sorted_courses_sunday_raises:
  "get_sorted_courses False [c_mon, c_sun] = Inl ValueError
   \<and> get_sorted_courses True [c_mon, c_sun, c_free] = Inl ValueError"
  by code_simp

theorem sorted_courses_sunday_raises_witness:
  "time c_sun = Some \<lparr>day = ''sunday'', start = 540, end_time = 630, weeks = None\<rparr>
   \<and> get_sorted_courses False [c_mon, c_sun] = Inl ValueError"
proof -
  have "time c_sun = Some \<lparr>day = ''sunday'', start = 540, end_time = 630, weeks = None\<rparr>"
    by (simp add: c_sun_def)
  moreover have "get_sorted_courses False [c_mon, c_sun] = Inl ValueError"
    using sorted_courses_sunday_raises by (rule conjunct1)
  ultimately show ?thesis by (rule conjI)
qed

lemma lower_char_dash: "lower_char x = CHR ''-'' \<longleftrightarrow> x = CHR ''-''"
proof
  assume a: "lower_char x = CHR ''-''"
  show "x = CHR ''-''"
  proof (cases "(65 \<le> (of_char x :: nat) \<and> (of_char x :: nat) \<le> 90)
              \<or> (192 \<le> (of_char x :: nat) \<and> (of_char x :: nat) \<le> 222 \<and> (of_char x :: nat) \<noteq> 215)")
    case True
    define n where "n = (of_char x :: nat)"
    have c: "(65 \<le> n \<and> n \<le> 90) \<or> (192 \<le> n \<and> n \<le> 222 \<and> n \<noteq> 215)"
      using True unfolding n_def .
    have "lower_char x = char_of (n + 32)"
      using True unfolding lower_char_def Let_def n_def by (simp only: if_True)
    with a have e: "char_of (n + 32) = CHR ''-''" by simp
    have "(of_char (char_of (n + 32) :: char) :: nat) = (n + 32) mod 256"
      by (rule of_char_of)
    moreover have "n + 32 < 256" using c by arith
    ultimately have "(of_char (char_of (n + 32) :: char) :: nat) = n + 32" by simp
    moreover have "(of_char (CHR ''-'') :: nat) = 45" by simp
    ultimately have "n + 32 = 45" using e by simp
    with c show ?thesis by arith
  next
    case False
    then have "lower_char x = x"
      unfolding lower_char_def Let_def by (simp only: if_False)
    with a show ?thesis by simp
  qed
next
  assume "x = CHR ''-''" then show "lower_char x = CHR ''-''"
    by (simp add: lower_char_def)
qed


lemma lower_no_dash: "CHR ''-'' \<notin> set s \<Longrightarrow> CHR ''-'' \<notin> set (lower s)"
proof
  assume a: "CHR ''-'' \<notin> set s" and "CHR ''-'' \<in> set (lower s)"
  then obtain x where "x \<in> set s" "lower_char x = CHR ''-''" by (auto simp: lower_def)
  with a show False by (simp add: lower_char_dash)
qed

lemma split_at_sep: "c \<notin> set a \<Longrightarrow> split c (a @ c # b) = a # split c b"
  by (induction a) auto

lemma split_identifier:
  assumes "CHR ''-'' \<notin> set a" and "lower_char t = t" and "t \<noteq> CHR ''-''"
  shows "split CHR ''-'' (lower (a @ ''-'' @ [t])) = [lower a, [t]]"
proof -
  have d: "lower_char CHR ''-'' = CHR ''-''" by (simp add: lower_char_dash)
  have "lower (a @ ''-'' @ [t]) = lower a @ CHR ''-'' # [t]"
    using assms(2) d by (simp add: lower_def)
  moreover have "CHR ''-'' \<notin> set (lower a)" using assms(1) by (rule lower_no_dash)
  moreover have "split CHR ''-'' [t] = [[t]]" using assms(3) by simp
  ultimately show ?thesis by (simp add: split_at_sep)
qed

lemma abbr_filter_total:
  "\<forall>x\<in>set cs. type x \<noteq> [] \<Longrightarrow>
     abbr_filter a ty cs =
       Inr (filter (\<lambda>x. a = lower (abbreviation_str x) \<and> (ty = None \<or> ty = Some [hd (type x)])) cs)"
  by (induction cs) (auto simp: type_matches_def split: list.splits)

text \<open>
  C7. For a course of the schedule (the courses loaded by the query) whose abbreviation
  holds no separator and whose type begins with a character that lowering leaves
  unchanged and that is not the separator, matching by the identifier made of its own
  abbreviation, the separator and the first letter of its own type returns a list that
  includes the course (no loaded course having an empty type, which is a folder name).
\<close>

theorem own_identifier_matches:
  assumes cs: "get_sorted_courses False ds = Inr cs"
    and c_in: "c \<in> set cs"
    and ty: "\<forall>x\<in>set cs. type x \<noteq> []"
    and abbr: "CHR ''-'' \<notin> set (abbreviation_str c)"
    and t: "hd (type c) = t" "lower_char t = t" "t \<noteq> CHR ''-''"
  shows "\<exists>r. get_course_from_argument unidecode now ds (Some (abbreviation_str c @ ''-'' @ [t]))
               = Inr r \<and> Some c \<in> set r"
proof -
  let ?arg = "abbreviation_str c @ ''-'' @ [t]"
  have "CHR ''-'' \<in> set ?arg" by simp
  then have not_next: "?arg \<noteq> ''n''" "?arg \<noteq> ''next''" by auto
  have parts: "split CHR ''-'' (lower ?arg) = [lower (abbreviation_str c), [t]]"
    using abbr t(2) t(3) by (rule split_identifier)
  let ?P = "\<lambda>x. lower (abbreviation_str c) = lower (abbreviation_str x)
                \<and> (Some [t] = None \<or> Some [t] = Some [hd (type x)])"
  have f: "abbr_filter (lower (abbreviation_str c)) (Some [t]) cs = Inr (filter ?P cs)"
    using ty by (rule abbr_filter_total)
  have mem: "c \<in> set (filter ?P cs)" using c_in t(1) by simp
  have ne: "filter ?P cs \<noteq> []" using mem by (metis empty_iff empty_set)
  have "get_course_from_argument unidecode now ds (Some ?arg) = Inr (map Some (filter ?P cs))"
    using not_next parts cs f ne by (simp add: Let_def)
  moreover have "Some c \<in> set (map Some (filter ?P cs))" using mem by simp
  ultimately show ?thesis by blast
qed

theorem own_identifier_matches_witness:
  "get_sorted_courses False [c_tue, c_free, c_mon] = Inr [c_mon, c_tue]
   \<and> type c_mon \<noteq> [] \<and> type c_tue \<noteq> []
   \<and> CHR ''-'' \<notin> set (abbreviation_str c_mon) \<and> hd (type c_mon) = CHR ''l''
   \<and> lower_char CHR ''l'' = CHR ''l''
   \<and> get_course_from_argument ascii_unidecode mon_0900 [c_tue, c_free, c_mon] (Some ''LA-l'')
       = Inr [Some c_mon]"
proof -
  have s: "get_sorted_courses False [c_tue, c_free, c_mon] = Inr [c_mon, c_tue]" by code_simp
  have ty: "\<forall>x\<in>set [c_mon, c_tue]. type x \<noteq> []" by code_simp
  have m: "c_mon \<in> set [c_mon, c_tue]" by simp
  have a: "CHR ''-'' \<notin> set (abbreviation_str c_mon)" by code_simp
  have h: "hd (type c_mon) = CHR ''l''" by code_simp
  have l: "lower_char CHR ''l'' = CHR ''l''" by code_simp
  have d: "CHR ''l'' \<noteq> CHR ''-''" by simp
  have arg: "abbreviation_str c_mon @ ''-'' @ [CHR ''l''] = ''LA-l''" by code_simp
  have r: "get_course_from_argument ascii_unidecode mon_0900 [c_tue, c_free, c_mon] (Some ''LA-l'')
       = Inr [Some c_mon]" by code_simp
  from own_identifier_matches[OF s m ty a h l d, of ascii_unidecode mon_0900] arg
  have "\<exists>r. get_course_from_argument ascii_unidecode mon_0900 [c_tue, c_free, c_mon] (Some ''LA-l'')
               = Inr r \<and> Some c_mon \<in> set r" by simp
  moreover have "type c_mon \<noteq> [] \<and> type c_tue \<noteq> []" using ty by simp
  ultimately show ?thesis using s a h l r by blast
qed

text \<open>
  The abbreviation \<open>OS-1\<close> holds the separator: the identifier \<open>OS-1-l\<close> is split into
  \<open>os\<close>, \<open>1\<close> and \<open>l\<close>, and the course is not in the result.
\<close>

theorem own_identifier_counterexample:
  "get_sorted_courses False [c_hyphen, c_mon] = Inr [c_mon, c_hyphen]
   \<and> abbreviation_str c_hyphen @ ''-'' @ [hd (type c_hyphen)] = ''OS-1-l''
   \<and> get_course_from_argument ascii_unidecode mon_0900 [c_hyphen, c_mon] (Some ''OS-1-l'') = Inr []"
  by code_simp

text \<open>
  C4. In the schedule produced with unscheduled courses included, a course with no time
  section has the key (0, 0): no such course comes after a course whose key (weekday
  index, start time) is greater than (0, 0), that is, it comes before every scheduled
  course that is not on a Monday with a start of 0 or less.
\<close>

theorem unscheduled_sorted_first:
  assumes "get_sorted_courses True ds = Inr (pre @ c # post)"
    and "sort_key_of c = Inr k" and "(0, 0) < k"
  shows "\<forall>u\<in>set post. time u \<noteq> None"
proof
  fix u assume u: "u \<in> set post"
  from get_sorted_courses_Inr[OF assms(1)]
  have out: "pre @ c # post = sort_key key_or (filter (\<lambda>c. time c \<noteq> None \<or> True) ds)" by blast
  have "sorted (map key_or (pre @ c # post))" unfolding out by simp
  then have "key_or c \<le> key_or u" using u by (auto simp: sorted_append)
  moreover have "key_or c = k" using assms(2) by (simp add: key_or_def)
  ultimately have "(0, 0) < key_or u" using assms(3) by simp
  then show "time u \<noteq> None"
    by (cases "time u") (simp_all add: key_or_def sort_key_of_def)
qed

theorem unscheduled_sorted_first_witness:
  "get_sorted_courses True [c_tue, c_free, c_mon] = Inr ([c_free] @ c_mon # [c_tue])
   \<and> sort_key_of c_mon = Inr (0, 570) \<and> ((0, 0) :: int \<times> int) < (0, 570)
   \<and> time c_tue \<noteq> None"
proof -
  have s: "get_sorted_courses True [c_tue, c_free, c_mon] = Inr ([c_free] @ c_mon # [c_tue])"
    by code_simp
  have k: "sort_key_of c_mon = Inr (0, 570)" by code_simp
  have l: "((0, 0) :: int \<times> int) < (0, 570)" by simp
  from unscheduled_sorted_first[OF s k l] have "time c_tue \<noteq> None" by simp
  with s k l show ?thesis by blast
qed

text \<open>
  With unscheduled courses included, the course without a time comes first, before the
  scheduled course discovered ahead of it.
\<close>

theorem unscheduled_last_counterexample:
  "get_sorted_courses True [c_tue, c_free] = Inr [c_free, c_tue]
   \<and> time c_free = None \<and> time c_tue \<noteq> None"
  by code_simp


lemma first_ongoing_found:
  "is_ongoing now c = Inr True \<Longrightarrow> \<forall>x\<in>set pre. is_ongoing now x = Inr False
     \<Longrightarrow> first_ongoing now (pre @ c # post) = Inr (Some c)"
  by (induction pre) auto

lemma first_ongoing_none:
  "\<forall>x\<in>set cs. is_ongoing now x = Inr False \<Longrightarrow> first_ongoing now cs = Inr None"
  by (induction cs) auto

lemma sorted_courses_ongoing:
  assumes "get_sorted_courses False ds = Inr cs" and "c \<in> set cs"
  shows "\<exists>b. is_ongoing now c = Inr b"
proof -
  from get_sorted_courses_Inr[OF assms(1)] assms(2)
  have k: "sort_key_of c = Inr (key_or c)" and t: "time c \<noteq> None" by auto
  then obtain t' w where "time c = Some t'" "weekday c = Inr w"
    by (auto simp: sort_key_of_def split: option.splits sum.splits)
  then show ?thesis by (simp add: is_ongoing_def)
qed

text \<open>
  C8. With no identifier token (\<open>None\<close>) the identifier query returns exactly the first
  course of the schedule that is ongoing, when there is one, and otherwise what it returns
  for \<open>next\<close>; for the token \<open>n\<close> it returns what it returns for \<open>next\<close>. (Each course of
  the schedule is or is not ongoing: the test raises for none of them.)
\<close>

theorem absent_identifier:
  assumes cs: "get_sorted_courses False ds = Inr cs"
  shows "(\<forall>x\<in>set cs. \<exists>b. is_ongoing now x = Inr b)
       \<and> (\<forall>pre c post. cs = pre @ c # post \<and> is_ongoing now c = Inr True
              \<and> (\<forall>x\<in>set pre. is_ongoing now x = Inr False)
            \<longrightarrow> get_course_from_argument unidecode now ds None = Inr [Some c])
       \<and> ((\<forall>x\<in>set cs. is_ongoing now x = Inr False)
            \<longrightarrow> get_course_from_argument unidecode now ds None
                = get_course_from_argument unidecode now ds (Some ''next''))
       \<and> get_course_from_argument unidecode now ds (Some ''n'')
           = get_course_from_argument unidecode now ds (Some ''next'')"
proof -
  have 1: "\<forall>x\<in>set cs. \<exists>b. is_ongoing now x = Inr b"
    using sorted_courses_ongoing[OF cs] by blast
  have 2: "get_course_from_argument unidecode now ds None = Inr [Some c]"
    if "cs = pre @ c # post" "is_ongoing now c = Inr True"
       "\<forall>x\<in>set pre. is_ongoing now x = Inr False" for pre c post
  proof -
    have "first_ongoing now cs = Inr (Some c)"
      unfolding that(1) using that(2) that(3) by (rule first_ongoing_found)
    then show ?thesis using cs by (simp add: get_ongoing_course_def)
  qed
  have 3: "get_course_from_argument unidecode now ds None
           = get_course_from_argument unidecode now ds (Some ''next'')"
    if "\<forall>x\<in>set cs. is_ongoing now x = Inr False"
  proof -
    have "first_ongoing now cs = Inr None" using that by (rule first_ongoing_none)
    then show ?thesis using cs by (simp add: get_ongoing_course_def)
  qed
  have 4: "get_course_from_argument unidecode now ds (Some ''n'')
           = get_course_from_argument unidecode now ds (Some ''next'')" by simp
  from 1 2 3 4 show ?thesis by blast
qed

theorem absent_identifier_witness:
  "get_sorted_courses False [c_mon, c_early] = Inr ([] @ c_early # [c_mon])
   \<and> is_ongoing mon_0900 c_early = Inr True
   \<and> get_course_from_argument ascii_unidecode mon_0900 [c_mon, c_early] None = Inr [Some c_early]
   \<and> is_ongoing wed_1200 c_early = Inr False \<and> is_ongoing wed_1200 c_mon = Inr False
   \<and> get_course_from_argument ascii_unidecode wed_1200 [c_mon, c_early] None = Inr [Some c_early]
   \<and> get_course_from_argument ascii_unidecode wed_1200 [c_mon, c_early] (Some ''next'')
       = Inr [Some c_early]"
proof -
  have s: "get_sorted_courses False [c_mon, c_early] = Inr ([] @ c_early # [c_mon])" by code_simp
  have o: "is_ongoing mon_0900 c_early = Inr True" by code_simp
  have p: "\<forall>x\<in>set []. is_ongoing mon_0900 x = Inr False" by simp
  note t1 = absent_identifier[OF s, of mon_0900 ascii_unidecode]
  from o p have "[] @ c_early # [c_mon] = [] @ c_early # [c_mon]
      \<and> is_ongoing mon_0900 c_early = Inr True
      \<and> (\<forall>x\<in>set []. is_ongoing mon_0900 x = Inr False)" by blast
  from t1[THEN conjunct2, THEN conjunct1, THEN spec, THEN spec, THEN spec, THEN mp, OF this]
  have r1: "get_course_from_argument ascii_unidecode mon_0900 [c_mon, c_early] None
            = Inr [Some c_early]" .
  have n: "\<forall>x\<in>set ([] @ c_early # [c_mon]). is_ongoing wed_1200 x = Inr False" by code_simp
  have r2: "get_course_from_argument ascii_unidecode wed_1200 [c_mon, c_early] (Some ''next'')
            = Inr [Some c_early]" by code_simp
  note t2 = absent_identifier[OF s, of wed_1200 ascii_unidecode]
  from t2[THEN conjunct2, THEN conjunct2, THEN conjunct1, THEN mp, OF n]
  have "get_course_from_argument ascii_unidecode wed_1200 [c_mon, c_early] None
        = get_course_from_argument ascii_unidecode wed_1200 [c_mon, c_early] (Some ''next'')" .
  with r2 have r3: "get_course_from_argument ascii_unidecode wed_1200 [c_mon, c_early] None
        = Inr [Some c_early]" by simp
  have n': "is_ongoing wed_1200 c_early = Inr False \<and> is_ongoing wed_1200 c_mon = Inr False"
    using n by simp
  from s o r1 n' r2 r3 show ?thesis by blast
qed

text \<open>
  The empty string is not the absent token: it is split into the one part \<open>''''\<close>, which
  every course name starts with, so with no course ongoing the query returns every
  scheduled course and not the result for \<open>next\<close>.
\<close>

theorem empty_identifier_counterexample:
  "get_ongoing_course wed_1200 [c_mon, c_tue] = Inr None
   \<and> get_course_from_argument ascii_unidecode wed_1200 [c_mon, c_tue] (Some ''next'')
       = Inr [Some c_mon]
   \<and> get_course_from_argument ascii_unidecode wed_1200 [c_mon, c_tue] (Some [])
       = Inr [Some c_mon, Some c_tue]"
  by code_simp

lemma no_scheduled_sorted:
  "\<forall>c\<in>set ds. time c = None \<Longrightarrow> get_sorted_courses False ds = Inr []"
proof -
  assume "\<forall>c\<in>set ds. time c = None"
  then have "filter (\<lambda>c. time c \<noteq> None \<or> False) ds = []" by (induction ds) auto
  then show ?thesis by (simp add: get_sorted_courses_def)
qed

text \<open>
  C10. When no course is scheduled, the next-course query returns the one-element list
  whose element is \<open>None\<close>; the query without a token falls back to it and returns the
  same list; and \<open>list_attribute\<close>, which tests the length of the list only, takes it for
  a single match and prints its element.
\<close>

theorem next_of_empty_schedule:
  assumes "\<forall>c\<in>set ds. time c = None"
  shows "get_course_from_argument unidecode now ds (Some ''next'') = Inr [None]
       \<and> get_course_from_argument unidecode now ds (Some ''n'') = Inr [None]
       \<and> get_course_from_argument unidecode now ds None = Inr [None]
       \<and> list_attribute unidecode now ds None [] = Inr (Print_course None)"
proof -
  have s: "get_sorted_courses False ds = Inr []" using assms by (rule no_scheduled_sorted)
  have 1: "get_course_from_argument unidecode now ds (Some ''next'') = Inr [None]"
    using s by simp
  have 2: "get_course_from_argument unidecode now ds (Some ''n'') = Inr [None]"
    using s by simp
  have 3: "get_course_from_argument unidecode now ds None = Inr [None]"
    using s 1 by (simp add: get_ongoing_course_def)
  have 4: "list_attribute unidecode now ds None [] = Inr (Print_course None)"
    using 3 by (simp add: list_attribute_def)
  from 1 2 3 4 show ?thesis by blast
qed

theorem next_of_empty_schedule_witness:
  "time c_free = None
   \<and> get_course_from_argument ascii_unidecode mon_0900 [c_free] (Some ''next'') = Inr [None]
   \<and> list_attribute ascii_unidecode mon_0900 [c_free] None [] = Inr (Print_course None)"
proof -
  have h: "\<forall>c\<in>set [c_free]. time c = None" by code_simp
  have h': "time c_free = None" using h by simp
  from next_of_empty_schedule[OF h, of ascii_unidecode mon_0900] h' show ?thesis by blast
qed

section \<open>Properties of the command dispatcher\<close>

lemma fold_max_indicator:
  "fold max (map (\<lambda>s. if P s then n else 0) xs) m = max m (if \<exists>s\<in>set xs. P s then n else (0::nat))"
  by (induction xs arbitrary: m) (auto simp: max_def)

lemma score_eq: "d \<noteq> [] \<Longrightarrow> score a d = Inr (positive_score a d)"
proof -
  assume "d \<noteq> []"
  then obtain x xs where d: "d = x # xs" by (cases d) auto
  show ?thesis
    unfolding d score_def positive_score_def
    by (simp add: fold_max_indicator max_def)
qed

lemma scored_eq:
  "\<forall>d\<in>set (map fst node). d \<noteq> [] \<Longrightarrow>
     scored a node = Inr (map (\<lambda>d. (positive_score a d, d)) (map fst node))"
  by (induction node) (auto simp: score_eq)

lemma insort_Pair:
  "insort (m, x) (map (Pair m) ys) = map (Pair m) (insort x ys)"
  by (induction ys) auto

lemma sort_Pair: "sort (map (Pair m) xs) = map (Pair m) (sort xs)"
  by (induction xs) (auto simp: insort_Pair)

lemma sorted_le_last: "sorted ys \<Longrightarrow> p \<in> set ys \<Longrightarrow> p \<le> last ys"
  by (induction ys) auto

lemma fst_last_sort_ge:
  fixes xs :: "(nat \<times> string list) list"
  assumes "p \<in> set xs"
  shows "fst p \<le> fst (last (sort xs))"
proof -
  have "p \<in> set (sort xs)" using assms by simp
  then have "p \<le> last (sort xs)"
    using sorted_sort[of xs] by (rule sorted_le_last[rotated])
  then show ?thesis by (auto simp: less_eq_prod_def)
qed

lemma sort_not_Nil: "xs \<noteq> [] \<Longrightarrow> sort xs \<noteq> []"
proof
  assume ne: "xs \<noteq> []" and "sort xs = []"
  then have "length (sort xs) = 0" by simp
  then have "length xs = 0" by (simp only: length_sort)
  with ne show False by simp
qed

lemma last_sort_mem: "xs \<noteq> [] \<Longrightarrow> last (sort xs) \<in> set xs"
proof -
  assume "xs \<noteq> []"
  then have "sort xs \<noteq> []" by (rule sort_not_Nil)
  then have "last (sort xs) \<in> set (sort xs)" by (rule last_in_set)
  then show ?thesis by simp
qed

lemma positive_score_cases: "positive_score a d = length a \<or> positive_score a d = 0"
  by (simp add: positive_score_def)

lemma best_score:
  assumes "keys \<noteq> []"
  shows "fst (last (sort (map (\<lambda>d. (positive_score a d, d)) keys)))
         = (if \<exists>d\<in>set keys. positive_score a d = length a then length a else 0)"
proof -
  let ?pairs = "map (\<lambda>d. (positive_score a d, d)) keys"
  let ?m = "fst (last (sort ?pairs))"
  have "?pairs \<noteq> []" using assms by simp
  then have "last (sort ?pairs) \<in> set ?pairs" by (rule last_sort_mem)
  then obtain d where d: "d \<in> set keys" "?m = positive_score a d" by auto
  show ?thesis
  proof (cases "\<exists>d\<in>set keys. positive_score a d = length a")
    case True
    then obtain d' where d': "d' \<in> set keys" "positive_score a d' = length a" by blast
    from d'(1) have "(positive_score a d', d') \<in> set ?pairs" by simp
    from fst_last_sort_ge[OF this] d' have "length a \<le> ?m" by simp
    moreover have "?m \<le> length a" using d(2) by (simp add: positive_score_def)
    ultimately show ?thesis using True by simp
  next
    case False
    then have "positive_score a d \<noteq> length a" using d(1) by blast
    with positive_score_cases[of a d] have "positive_score a d = 0" by blast
    then show ?thesis using False d(2) by simp
  qed
qed


lemma best_score_zero:
  assumes "keys \<noteq> []" and "\<forall>d\<in>set keys. positive_score a d = 0"
  shows "fst (last (sort (map (\<lambda>d. (positive_score a d, d)) keys))) = 0"
proof (cases "\<exists>d\<in>set keys. positive_score a d = length a")
  case True
  then obtain d where "d \<in> set keys" "positive_score a d = length a" by blast
  with assms(2) have "length a = 0" by (metis)
  then show ?thesis using best_score[OF assms(1), of a] by (simp only: if_cancel)
next
  case False
  then show ?thesis using best_score[OF assms(1), of a] by (simp only: if_False)
qed

lemma best_score_pos:
  assumes "d \<in> set keys" and "positive_score a d = length a"
  shows "fst (last (sort (map (\<lambda>d. (positive_score a d, d)) keys))) = length a"
proof -
  have ne: "keys \<noteq> []" using assms(1) by (metis empty_iff empty_set)
  have "\<exists>d\<in>set keys. positive_score a d = length a" using assms by blast
  then show ?thesis using best_score[OF ne, of a] by (simp only: if_True)
qed

lemma tied_filter:
  assumes "a \<noteq> []"
  shows "filter (\<lambda>x. fst x = length a) (map (\<lambda>d. (positive_score a d, d)) keys)
         = map (Pair (length a)) (filter (\<lambda>d. \<exists>s\<in>set d. startswith s a) keys)"
  using assms by (induction keys) (auto simp: positive_score_def)

lemma map_of_key: "d \<in> set (map fst node) \<Longrightarrow> \<exists>sub. map_of node d = Some sub"
  by (induction node) auto

lemma choose_decision_unfold:
  assumes "scored a node = Inr pairs" and "sort pairs \<noteq> []"
    and "fst (last (sort pairs)) = m" and "filter (\<lambda>x. fst x = m) (sort pairs) = win"
  shows "choose_decision node a =
     (if m = 0 then Inl (No_match a (map fst node))
      else if length win > 1 then Inl (Ambiguous a (map snd win))
      else (case win of [] \<Rightarrow> Inl (Raised IndexError)
            | x # _ \<Rightarrow> (case map_of node (snd x) of
                  None \<Rightarrow> Inl (Raised (KeyError (V_list (map V_str (snd x)))))
                | Some sub \<Rightarrow> Inr (snd x, sub))))"
  using assms unfolding choose_decision_def Let_def by simp

text \<open>
  C1. At an internal node with at least one child, every child having at least one alias,
  the dispatcher gives each child the score max over the child's aliases of (the length
  of the token, if the alias starts with the token, else 0). It fails with the
  unmatched-token error when every child scores 0, which is so for the empty token; it
  descends into the child when exactly one child has an alias starting with the non-empty
  token; and it fails with the ambiguous-token error, reporting the tied alias groups in
  sorted order, when more than one child has such an alias.
\<close>

theorem choose_decision_by_token_length:
  assumes node: "node \<noteq> []" and aliases: "\<forall>d\<in>set (map fst node). d \<noteq> []"
  shows "(\<forall>d\<in>set (map fst node).
            score a d = Inr (if \<exists>s\<in>set d. startswith s a then length a else 0))
       \<and> (a = [] \<or> filter (\<lambda>d. \<exists>s\<in>set d. startswith s a) (map fst node) = []
            \<longrightarrow> choose_decision node a = Inl (No_match a (map fst node)))
       \<and> (\<forall>d. a \<noteq> [] \<and> filter (\<lambda>d. \<exists>s\<in>set d. startswith s a) (map fst node) = [d]
            \<longrightarrow> (\<exists>sub. map_of node d = Some sub \<and> choose_decision node a = Inr (d, sub)))
       \<and> (a \<noteq> [] \<and> length (filter (\<lambda>d. \<exists>s\<in>set d. startswith s a) (map fst node)) > 1
            \<longrightarrow> choose_decision node a
                = Inl (Ambiguous a (sort (filter (\<lambda>d. \<exists>s\<in>set d. startswith s a) (map fst node)))))"
proof -
  let ?keys = "map fst node"
  let ?tied = "filter (\<lambda>d. \<exists>s\<in>set d. startswith s a) ?keys"
  let ?pairs = "map (\<lambda>d. (positive_score a d, d)) ?keys"
  have keys: "?keys \<noteq> []" using node by simp
  have sc: "scored a node = Inr ?pairs" using aliases by (rule scored_eq)
  have "?pairs \<noteq> []" using keys by simp
  then have ne: "sort ?pairs \<noteq> []" by (rule sort_not_Nil)
  have 1: "\<forall>d\<in>set ?keys. score a d = Inr (if \<exists>s\<in>set d. startswith s a then length a else 0)"
  proof
    fix d assume "d \<in> set ?keys"
    with aliases have "d \<noteq> []" by blast
    then have "score a d = Inr (positive_score a d)" by (rule score_eq)
    then show "score a d = Inr (if \<exists>s\<in>set d. startswith s a then length a else 0)"
      by (simp only: positive_score_def)
  qed
  have 2: "choose_decision node a = Inl (No_match a ?keys)" if "a = [] \<or> ?tied = []"
  proof -
    have "positive_score a d = 0" if "d \<in> set ?keys" for d
    proof (cases "a = []")
      case True
      then show ?thesis by (simp add: positive_score_def)
    next
      case False
      with \<open>a = [] \<or> ?tied = []\<close> have "?tied = []" by blast
      then have "\<not> (\<exists>s\<in>set d. startswith s a)" using that
        unfolding filter_empty_conv by blast
      then show ?thesis by (simp add: positive_score_def)
    qed
    then have "\<forall>d\<in>set ?keys. positive_score a d = 0" by blast
    with keys have "fst (last (sort ?pairs)) = 0" by (rule best_score_zero)
    from choose_decision_unfold[OF sc ne this refl] show ?thesis by simp
  qed
  have pos: "fst (last (sort ?pairs)) = length a \<and> length a \<noteq> 0 
             \<and> filter (\<lambda>x. fst x = fst (last (sort ?pairs))) (sort ?pairs)
                = map (Pair (length a)) (sort ?tied)"
    if a: "a \<noteq> []" and t: "?tied \<noteq> []"
  proof -
    from t obtain d where "d \<in> set ?tied" by (meson last_in_set)
    then have dk: "d \<in> set ?keys" and "\<exists>s\<in>set d. startswith s a"
      unfolding set_filter by blast+
    then have "positive_score a d = length a" by (simp add: positive_score_def)
    with dk have b: "fst (last (sort ?pairs)) = length a" by (rule best_score_pos)
    have "filter (\<lambda>x. fst x = length a) (sort ?pairs) = sort (filter (\<lambda>x. fst x = length a) ?pairs)"
      by (simp add: filter_sort)
    also have "\<dots> = sort (map (Pair (length a)) ?tied)"
      by (simp only: tied_filter[OF a])
    also have "\<dots> = map (Pair (length a)) (sort ?tied)" by (rule sort_Pair)
    finally have "filter (\<lambda>x. fst x = length a) (sort ?pairs) = map (Pair (length a)) (sort ?tied)" .
    then have "filter (\<lambda>x. fst x = fst (last (sort ?pairs))) (sort ?pairs)
                = map (Pair (length a)) (sort ?tied)" by (simp only: b)
    moreover have "length a \<noteq> 0" using a by simp
    ultimately show ?thesis using b by blast
  qed
  have 3: "\<exists>sub. map_of node d = Some sub \<and> choose_decision node a = Inr (d, sub)"
    if "a \<noteq> [] \<and> ?tied = [d]" for d
  proof -
    have a: "a \<noteq> []" using that by (rule conjunct1)
    have t: "?tied = [d]" using that by (rule conjunct2)
    have "d \<in> set ?tied" unfolding t by simp
    moreover have "set ?tied \<subseteq> set ?keys" by (rule filter_is_subset)
    ultimately have "d \<in> set ?keys" by (rule rev_subsetD)
    then have "\<exists>sub. map_of node d = Some sub" by (rule map_of_key)
    then obtain sub where sub: "map_of node d = Some sub" ..
    have tne: "?tied \<noteq> []" unfolding t by simp
    have "sort ?tied = [d]" unfolding t by simp
    then have st: "map (Pair (length a)) (sort ?tied) = [(length a, d)]" by simp
    note q = pos[OF a tne]
    have p: "fst (last (sort ?pairs)) = length a" "length a \<noteq> 0"
      by (rule q[THEN conjunct1], rule q[THEN conjunct2, THEN conjunct1])
    have "filter (\<lambda>x. fst x = fst (last (sort ?pairs))) (sort ?pairs)
            = map (Pair (length a)) (sort ?tied)"
      by (rule q[THEN conjunct2, THEN conjunct2])
    then have p3: "filter (\<lambda>x. fst x = length a) (sort ?pairs) = [(length a, d)]"
      by (simp only: p(1) st)
    have "choose_decision node a = Inr (d, sub)"
      using choose_decision_unfold[OF sc ne p(1) p3] p(2) sub by simp
    with sub show ?thesis by blast
  qed
  have 4: "choose_decision node a = Inl (Ambiguous a (sort ?tied))"
    if "a \<noteq> [] \<and> length ?tied > 1"
  proof -
    have a: "a \<noteq> []" using that by (rule conjunct1)
    have t: "length ?tied > 1" using that by (rule conjunct2)
    have tne: "?tied \<noteq> []"
    proof
      assume "?tied = []"
      then have "length ?tied = 0" by (simp only: list.size)
      with t show False by simp
    qed
    note q = pos[OF a tne]
    have p: "fst (last (sort ?pairs)) = length a" "length a \<noteq> 0"
      by (rule q[THEN conjunct1], rule q[THEN conjunct2, THEN conjunct1])
    have "filter (\<lambda>x. fst x = fst (last (sort ?pairs))) (sort ?pairs)
            = map (Pair (length a)) (sort ?tied)"
      by (rule q[THEN conjunct2, THEN conjunct2])
    then have p3: "filter (\<lambda>x. fst x = length a) (sort ?pairs)
         = map (Pair (length a)) (sort ?tied)"
      by (simp only: p(1))
    have l: "length (map (Pair (length a)) (sort ?tied)) > 1" using t by simp
    have m: "map snd (map (Pair (length a)) (sort ?tied)) = sort ?tied" by (simp add: comp_def)
    show ?thesis
      using choose_decision_unfold[OF sc ne p(1) p3] p(2) l m by simp
  qed
  from 1 2 3 4 show ?thesis by blast
qed

theorem choose_decision_by_token_length_witness:
  "root_decisions \<noteq> [] \<and> [] \<notin> set (map fst root_decisions)
   \<and> score ''co'' [''compile''] = Inr 2
   \<and> choose_decision root_decisions ''x''
       = Inl (No_match ''x'' [[''list''], [''compile''], [''config''], [''check''], [''open'']])
   \<and> (\<exists>sub. choose_decision root_decisions ''com'' = Inr ([''compile''], sub))
   \<and> choose_decision root_decisions ''co'' = Inl (Ambiguous ''co'' [[''compile''], [''config'']])"
proof -
  have n: "root_decisions \<noteq> []" by code_simp
  have al: "\<forall>d\<in>set (map fst root_decisions). d \<noteq> []" by code_simp
  have k: "map fst root_decisions = [[''list''], [''compile''], [''config''], [''check''], [''open'']]"
    by code_simp
  have m: "[''compile''] \<in> set (map fst root_decisions)" by code_simp
  have s: "(if \<exists>s\<in>set [''compile'']. startswith s ''co'' then length ''co'' else 0) = 2"
    by code_simp
  have fx: "filter (\<lambda>d. \<exists>s\<in>set d. startswith s ''x'') (map fst root_decisions) = []"
    by code_simp
  have fcom: "filter (\<lambda>d. \<exists>s\<in>set d. startswith s ''com'') (map fst root_decisions) = [[''compile'']]"
    by code_simp
  have fco: "filter (\<lambda>d. \<exists>s\<in>set d. startswith s ''co'') (map fst root_decisions)
             = [[''compile''], [''config'']]"
    by code_simp
  have srt: "sort [[''compile''], [''config'']] = [[''compile''], [''config'']]" by code_simp
  note t = choose_decision_by_token_length[OF n al]
  have 1: "score ''co'' [''compile''] = Inr 2"
    using t[of "''co''", THEN conjunct1] m s by (simp only:)
  have "''x'' = [] \<or> filter (\<lambda>d. \<exists>s\<in>set d. startswith s ''x'') (map fst root_decisions) = []"
    using fx by (rule disjI2)
  then have "choose_decision root_decisions ''x'' = Inl (No_match ''x'' (map fst root_decisions))"
    by (rule t[of "''x''", THEN conjunct2, THEN conjunct1, THEN mp])
  then have 2: "choose_decision root_decisions ''x''
       = Inl (No_match ''x'' [[''list''], [''compile''], [''config''], [''check''], [''open'']])"
    unfolding k .
  have ne: "''com'' \<noteq> []" "''co'' \<noteq> []" by simp_all
  have 3: "\<exists>sub. choose_decision root_decisions ''com'' = Inr ([''compile''], sub)"
    using t[of "''com''", THEN conjunct2, THEN conjunct2, THEN conjunct1, THEN spec, of "[''compile'']"]
      fcom ne(1) by blast
  have l: "length [[''compile''], [''config'']] > 1" by simp
  have 4: "choose_decision root_decisions ''co'' = Inl (Ambiguous ''co'' [[''compile''], [''config'']])"
    using t[of "''co''", THEN conjunct2, THEN conjunct2, THEN conjunct2] ne(2) l
    unfolding fco srt by blast
  have al': "[] \<notin> set (map fst root_decisions)" using al by blast
  from n al' 1 2 3 4 show ?thesis by blast
qed

text \<open>
  For the token \<open>co\<close> at the root, scoring by the length of the alias would give
  \<open>compile\<close> 7 and \<open>config\<close> 6 and descend into \<open>compile\<close>; the dispatcher scores both 2
  and reports the token as ambiguous.
\<close>

theorem spec_score_counterexample:
  "spec_score ''co'' [''compile''] = 7 \<and> spec_score ''co'' [''config''] = 6
   \<and> score ''co'' [''compile''] = Inr 2 \<and> score ''co'' [''config''] = Inr 2
   \<and> spec_choose root_decisions ''co''
       = Inr ([''compile''], Decisions
           [([''cron''], Function ''compile_cron_jobs'' []
               ''Add crontab notifications for all courses.''),
            ([''notes''], Function ''compile_notes'' []
               ''Run md_to_pdf script on all course notes.'')])
   \<and> choose_decision root_decisions ''co'' = Inl (Ambiguous ''co'' [[''compile''], [''config'']])"
  by code_simp

section \<open>Properties of the course repository loader\<close>

text \<open>
  Of what \<open>safe_load\<close> raises, only YAMLError and TypeError are caught and named with the
  file; anything else leaves the loader as it is.
\<close>

lemma safe_load_exceptions:
  "load_courses False [f_good, f_bad_syntax] = Inl (SystemExit (path f_bad_syntax) YAMLError)
   \<and> load_courses False [f_good, f_bad_date] = Inl (Uncaught ValueError)"
  by code_simp

lemma check_fields_None:
  "check_fields c dict anns = None \<longleftrightarrow> (\<forall>(n, t)\<in>set anns. \<not> mismatch dict n t)"
  by (induction anns) (auto simp: mismatch_def Let_def split: if_splits)

lemma check_fields_Some:
  "check_fields c dict anns = Some e \<Longrightarrow>
     \<exists>n t. (n, t) \<in> set anns \<and> mismatch dict n t
           \<and> e = TypeError (Field_type n c t (type_name (lookup_field dict n)))"
  by (induction anns) (auto simp: mismatch_def Let_def split: if_splits)

lemma map_of_self:
  "n \<in> set (map fst anns) \<Longrightarrow>
     map_of (map (\<lambda>(n, _). (n, f n)) anns) n = Some (f n)"
  by (induction anns) auto

lemma lookup_self:
  "n \<in> set (map fst anns) \<Longrightarrow>
     lookup_field (map (\<lambda>(n, _). (n, lookup_field kwargs n)) anns) n = lookup_field kwargs n"
  by (simp add: lookup_field_def map_of_self)

lemma mismatch_self:
  "(n, t) \<in> set anns \<Longrightarrow>
     mismatch (map (\<lambda>(n, _). (n, lookup_field kwargs n)) anns) n t = mismatch kwargs n t"
proof -
  assume "(n, t) \<in> set anns"
  then have "n \<in> set (map fst anns)" by force
  then show ?thesis unfolding mismatch_def by (simp only: lookup_self)
qed

lemma construct_cases:
  "construct c kwargs =
     (if filter (\<lambda>n. map_of kwargs n = None) (required c) \<noteq> []
      then Inl (TypeError (Missing_arguments c (filter (\<lambda>n. map_of kwargs n = None) (required c))))
      else (case check_fields c (map (\<lambda>(n, _). (n, lookup_field kwargs n)) (annotations c))
                  (annotations c) of
              Some e \<Rightarrow> Inl e
            | None \<Rightarrow> Inr (V_obj c (map (\<lambda>(n, _). (n, lookup_field kwargs n)) (annotations c)))))"
  by (simp add: construct_def post_init_def Let_def)

lemma construct_Field_type:
  assumes "construct c kwargs = Inl (TypeError (Field_type n c' t a))"
  shows "(n, t) \<in> set (annotations c) \<and> c' = c \<and> mismatch kwargs n t
         \<and> a = type_name (lookup_field kwargs n)"
proof -
  let ?self = "map (\<lambda>(n, _). (n, lookup_field kwargs n)) (annotations c)"
  from assms have "check_fields c ?self (annotations c) = Some (TypeError (Field_type n c' t a))"
    unfolding construct_cases by (auto split: if_splits option.splits)
  from check_fields_Some[OF this] obtain n' t' where h: "(n', t') \<in> set (annotations c)"
    "mismatch ?self n' t'"
    "TypeError (Field_type n c' t a) = TypeError (Field_type n' c t' (type_name (lookup_field ?self n')))"
    by blast
  from h(3) have eq: "n = n'" "c' = c" "t = t'" "a = type_name (lookup_field ?self n')" by simp_all
  have "n' \<in> set (map fst (annotations c))" using h(1) by force
  then have l: "lookup_field ?self n' = lookup_field kwargs n'" by (rule lookup_self)
  have "mismatch kwargs n' t'" using h(2) mismatch_self[OF h(1), of kwargs] by simp
  with h(1) eq l show ?thesis by simp
qed

lemma mismatch_update_None:
  "mismatch ((n', V_None) # kwargs) m t \<Longrightarrow> mismatch kwargs m t"
  by (cases "m = n'") (simp_all add: mismatch_def lookup_field_def)

lemma check_fields_self_None:
  "check_fields c (map (\<lambda>(n, _). (n, lookup_field kwargs n)) (annotations c)) (annotations c) = None
     \<longleftrightarrow> (\<forall>(n, t)\<in>set (annotations c). \<not> mismatch kwargs n t)"
  unfolding check_fields_None using mismatch_self[of _ _ "annotations c" kwargs] by blast

lemma construct_Inr_iff:
  "(\<exists>obj. construct c kwargs = Inr obj) \<longleftrightarrow>
     filter (\<lambda>n. map_of kwargs n = None) (required c) = []
     \<and> (\<forall>(n, t)\<in>set (annotations c). \<not> mismatch kwargs n t)"
  unfolding construct_cases check_fields_self_None[symmetric]
  by (auto split: option.splits)

text \<open>
  C9. The strict check never raises for a field whose value is \<open>None\<close>: a TypeError that
  construction raises for a field names a field that is not \<open>None\<close>; for each of the five
  classes the record with every field set to \<open>None\<close> is constructed; and whenever a record
  is constructed from some keywords, it is constructed as well with any one field
  explicitly set to \<open>None\<close> instead, whatever the field's declared type and whether or not
  the field is a required one.
\<close>

theorem none_passes_strict_check:
  "(construct c kwargs = Inl (TypeError (Field_type n c' t a)) \<longrightarrow> lookup_field kwargs n \<noteq> V_None)
   \<and> construct c (map (\<lambda>(n, _). (n, V_None)) (annotations c))
       = Inr (V_obj c (map (\<lambda>(n, _). (n, V_None)) (annotations c)))
   \<and> ((\<exists>obj. construct c kwargs = Inr obj)
        \<longrightarrow> (\<exists>obj'. construct c ((n', V_None) # kwargs) = Inr obj'))"
proof -
  have 1: "lookup_field kwargs n \<noteq> V_None"
    if "construct c kwargs = Inl (TypeError (Field_type n c' t a))"
    using construct_Field_type[OF that] by (simp add: mismatch_def)
  let ?all = "map (\<lambda>(n, _). (n, V_None)) (annotations c)"
  have 2: "construct c ?all = Inr (V_obj c ?all)"
    by (cases c) (simp_all add: construct_def post_init_def annotations_def required_def
                     lookup_field_def Let_def)
  have 3: "\<exists>obj'. construct c ((n', V_None) # kwargs) = Inr obj'"
    if "\<exists>obj. construct c kwargs = Inr obj"
  proof -
    from that have req: "filter (\<lambda>n. map_of kwargs n = None) (required c) = []"
      and ok: "\<forall>(n, t)\<in>set (annotations c). \<not> mismatch kwargs n t"
      unfolding construct_Inr_iff by blast+
    have "filter (\<lambda>n. map_of ((n', V_None) # kwargs) n = None) (required c) = []"
      using req by (auto simp: filter_empty_conv)
    moreover have "\<forall>(n, t)\<in>set (annotations c). \<not> mismatch ((n', V_None) # kwargs) n t"
      using ok mismatch_update_None by blast
    ultimately show ?thesis unfolding construct_Inr_iff by blast
  qed
  from 1 2 3 show ?thesis by blast
qed

theorem none_passes_strict_check_witness:
  "construct Time_class [(''day'', V_str ''monday''), (''start'', V_int 540), (''end'', V_int 630)]
     = Inr (V_obj Time_class [(''day'', V_str ''monday''), (''start'', V_int 540),
                              (''end'', V_int 630), (''weeks'', V_None)])
   \<and> construct Time_class [(''day'', V_None), (''day'', V_str ''monday''), (''start'', V_int 540),
                            (''end'', V_int 630)]
     = Inr (V_obj Time_class [(''day'', V_None), (''start'', V_int 540),
                              (''end'', V_int 630), (''weeks'', V_None)])
   \<and> construct Time_class [(''day'', V_int 1), (''start'', V_int 540), (''end'', V_int 630)]
     = Inl (TypeError (Field_type ''day'' Time_class T_str ''int''))
   \<and> lookup_field [(''day'', V_int 1), (''start'', V_int 540), (''end'', V_int 630)] ''day'' \<noteq> V_None"
proof -
  let ?k = "[(''day'', V_str ''monday''), (''start'', V_int 540), (''end'', V_int 630)]"
  let ?b = "[(''day'', V_int 1), (''start'', V_int 540), (''end'', V_int 630)]"
  have a: "construct Time_class ?k
     = Inr (V_obj Time_class [(''day'', V_str ''monday''), (''start'', V_int 540),
                              (''end'', V_int 630), (''weeks'', V_None)])" by code_simp
  have b: "construct Time_class ((''day'', V_None) # ?k)
     = Inr (V_obj Time_class [(''day'', V_None), (''start'', V_int 540),
                              (''end'', V_int 630), (''weeks'', V_None)])" by code_simp
  have c: "construct Time_class ?b = Inl (TypeError (Field_type ''day'' Time_class T_str ''int''))"
    by code_simp
  note t = none_passes_strict_check[of Time_class ?b "''day''" Time_class T_str "''int''" "''day''"]
  from t[THEN conjunct1, THEN mp, OF c]
  have d: "lookup_field ?b ''day'' \<noteq> V_None" .
  have "\<exists>obj. construct Time_class ?k = Inr obj" using a by blast
  from none_passes_strict_check[of Time_class ?k _ _ _ _ "''day''",
         THEN conjunct2, THEN conjunct2, THEN mp, OF this]
  have e: "\<exists>obj'. construct Time_class ((''day'', V_None) # ?k) = Inr obj'" .
  from a b c d e show ?thesis by blast
qed


















end
